theory Spec2Isabelle
  imports Complex_Main "HOL-Library.AList" "HOL-Library.Log_Nat"
begin

section \<open>Dates and numbers of the host language\<close>

text \<open>
  A \<^verbatim>\<open>Date\<close> is its time value: the milliseconds since 1970-01-01T00:00Z, an integer
  (only valid dates are modelled; the API delivers well-formed ISO timestamps).
  The calendar methods the program calls (\<^verbatim>\<open>getDay\<close>, \<^verbatim>\<open>getDate\<close>, \<^verbatim>\<open>setDate\<close>,
  \<^verbatim>\<open>setHours\<close>) work in the local zone of the process; the zone is the parameter
  \<open>tz\<close>, a fixed offset in milliseconds added to UTC (\<open>0\<close> for UTC; no daylight
  saving transitions). Time values and their differences are integers far below
  \<open>2^53\<close>, so the program computes them exactly.
\<close>

type_synonym date = int

definition msPerDay :: int where
  "msPerDay = 86400000"

definition msPerHour :: int where
  "msPerHour = 1000 * 60 * 60"

subsection \<open>Double-precision numbers\<close>

text \<open>
  Every other number of the program is an IEEE 754 double. A finite double is modelled by
  the rational number it denotes, and an arithmetic operation (\<^verbatim>\<open>+\<close>, \<^verbatim>\<open>*\<close>, \<^verbatim>\<open>/\<close>) by the
  exact result rounded to the nearest number with a significand of 53 bits, ties to the
  even significand (\<open>toDouble\<close>). The exponent is not bounded: the hours, sums and
  percentages of the program stay far inside the range of the normal doubles, where
  neither overflow nor gradual underflow occurs.
\<close>

text \<open>The exponent \<open>e\<close> of a positive number: \<open>2^e \<le> x < 2^(e+1)\<close>.\<close>

definition binaryExponent :: "rat \<Rightarrow> int" where
  "binaryExponent x =
     (if 1 \<le> x then bitlen \<lfloor>x\<rfloor> - 1
      else (let k = bitlen \<lfloor>1 / x\<rfloor> - 1
            in if x = 1 / 2 ^ nat k then - k else - k - 1))"

text \<open>Rounding to the nearest integer, a tie to the even one.\<close>

definition roundEven :: "rat \<Rightarrow> int" where
  "roundEven y =
     (let f = \<lfloor>y\<rfloor>; r = y - of_int f
      in if r < 1 / 2 then f else if 1 / 2 < r then f + 1 else if even f then f else f + 1)"

definition toDouble :: "rat \<Rightarrow> rat" where
  "toDouble x =
     (if x = 0 then 0
      else (let s = 2 powi (binaryExponent \<bar>x\<bar> - 52)
            in of_int (roundEven (x / s)) * s))"

text \<open>The unit roundoff: rounding changes a number by at most this fraction of it.\<close>

definition unitRoundoff :: rat where
  "unitRoundoff = 1 / 2 ^ 53"

subsection \<open>Calendar methods\<close>

text \<open>The number of the local calendar day that holds the instant (day 0 is 1970-01-01).\<close>

definition dayIndex :: "int \<Rightarrow> date \<Rightarrow> int" where
  "dayIndex tz t = (t + tz) div msPerDay"

text \<open>Local midnight at the beginning of calendar day \<open>D\<close>.\<close>

definition dayStart :: "int \<Rightarrow> int \<Rightarrow> date" where
  "dayStart tz D = D * msPerDay - tz"

text \<open>Day of the week of a calendar day, 0 = Sunday .. 6 = Saturday; day 0 was a Thursday.\<close>

definition weekDayOf :: "int \<Rightarrow> int" where
  "weekDayOf D = (D + 4) mod 7"

text \<open>Day of the month (1..31) of a calendar day in the proleptic Gregorian calendar.\<close>

definition dayOfMonth :: "int \<Rightarrow> int" where
  "dayOfMonth D =
     (let z = D + 719468;
          era = z div 146097;
          doe = z - era * 146097;
          yoe = (doe - doe div 1460 + doe div 36524 - doe div 146096) div 365;
          doy = doe - (365 * yoe + yoe div 4 - yoe div 100);
          mp = (5 * doy + 2) div 153
      in doy - (153 * mp + 2) div 5 + 1)"

definition getDay :: "int \<Rightarrow> date \<Rightarrow> int" where
  "getDay tz t = weekDayOf (dayIndex tz t)"

definition getDate :: "int \<Rightarrow> date \<Rightarrow> int" where
  "getDate tz t = dayOfMonth (dayIndex tz t)"

text \<open>
  \<^verbatim>\<open>d.setDate(n)\<close>: day \<open>n\<close> counted from the first of \<open>d\<close>'s month, also for
  \<open>n\<close> below 1 or beyond the month's end; the time of day is kept.
\<close>

definition setDate :: "int \<Rightarrow> date \<Rightarrow> int \<Rightarrow> date" where
  "setDate tz t n = t + (n - getDate tz t) * msPerDay"

text \<open>\<^verbatim>\<open>d.setHours(0, 0, 0, 0)\<close>: local midnight of the same calendar day.\<close>

definition setHours0 :: "int \<Rightarrow> date \<Rightarrow> date" where
  "setHours0 tz t = t - (t + tz) mod msPerDay"

section \<open>utils.ts: working hours and week start\<close>

text \<open>
  The \<^verbatim>\<open>while (currentDate < end)\<close> loop of \<^verbatim>\<open>calculateWorkingHours\<close>, with the
  loop variables \<open>currentDate\<close> and \<open>hours\<close> as arguments. The quotient \<open>periodHours\<close>
  and the sum \<^verbatim>\<open>hours += periodHours\<close> are each rounded to a double.
\<close>

function workingHoursLoop :: "int \<Rightarrow> date \<Rightarrow> date \<Rightarrow> rat \<Rightarrow> rat" where
  "workingHoursLoop tz currentDate endDate hours =
     (if currentDate < endDate then
        (let dayOfWeek = getDay tz currentDate;
             hours' =
               (if dayOfWeek \<noteq> 0 \<and> dayOfWeek \<noteq> 6 then
                  (let nextDay = setHours0 tz (setDate tz currentDate (getDate tz currentDate + 1));
                       endOfPeriod = (if nextDay < endDate then nextDay else endDate);
                       periodHours =
                         toDouble (of_int (endOfPeriod - currentDate) / of_int msPerHour)
                   in toDouble (hours + periodHours))
                else hours)
         in workingHoursLoop tz
              (setHours0 tz (setDate tz currentDate (getDate tz currentDate + 1)))
              endDate hours')
      else hours)"
  by pat_completeness auto

lemma nextMidnight_eq:
  "setHours0 tz (setDate tz t (getDate tz t + 1)) = dayStart tz (dayIndex tz t + 1)"
proof -
  have "setDate tz t (getDate tz t + 1) = t + msPerDay"
    by (simp add: setDate_def)
  moreover have "(t + msPerDay + tz) mod msPerDay = (t + tz) mod msPerDay"
    by (simp add: add.commute add.left_commute)
  moreover have "(t + tz) div msPerDay * msPerDay + (t + tz) mod msPerDay = t + tz"
    by (rule div_mult_mod_eq)
  ultimately show ?thesis
    unfolding setHours0_def dayStart_def dayIndex_def
    by (simp add: algebra_simps)
qed

lemma dayStart_le: "dayStart tz (dayIndex tz t) \<le> t"
proof -
  have "(t + tz) div msPerDay * msPerDay \<le> t + tz"
    by (simp add: msPerDay_def)
  then show ?thesis by (simp add: dayStart_def dayIndex_def)
qed

lemma dayStart_succ_gt: "t < dayStart tz (dayIndex tz t + 1)"
proof -
  have "0 < msPerDay" by (simp add: msPerDay_def)
  then have "(t + tz) mod msPerDay < msPerDay"
    by simp
  moreover have "(t + tz) div msPerDay * msPerDay + (t + tz) mod msPerDay = t + tz"
    by (rule div_mult_mod_eq)
  ultimately have "t + tz < (t + tz) div msPerDay * msPerDay + msPerDay"
    by linarith
  then show ?thesis
    unfolding dayStart_def dayIndex_def by (simp add: algebra_simps)
qed

termination workingHoursLoop
proof (relation "measure (\<lambda>(tz, currentDate, endDate, hours). nat (endDate - currentDate))")
  show "wf (measure (\<lambda>(tz, currentDate, endDate, hours). nat (endDate - currentDate)))"
    by simp
next
  fix tz currentDate endDate :: int and hours x xa :: rat
  assume "currentDate < endDate"
  moreover have "currentDate < setHours0 tz (setDate tz currentDate (getDate tz currentDate + 1))"
    by (simp add: nextMidnight_eq dayStart_succ_gt)
  ultimately show
    "((tz, setHours0 tz (setDate tz currentDate (getDate tz currentDate + 1)), endDate, xa),
      (tz, currentDate, endDate, hours))
     \<in> measure (\<lambda>(tz, currentDate, endDate, hours). nat (endDate - currentDate))"
    by simp
qed

declare workingHoursLoop.simps [simp del]

definition calculateWorkingHours :: "int \<Rightarrow> date \<Rightarrow> date \<Rightarrow> rat" where
  "calculateWorkingHours tz start endDate =
     (if endDate < start then 0 else workingHoursLoop tz start endDate 0)"

definition isWithinOneWorkingDay :: "int \<Rightarrow> date \<Rightarrow> date \<Rightarrow> bool" where
  "isWithinOneWorkingDay tz start endDate =
     (let workingHours = calculateWorkingHours tz start endDate in workingHours \<le> 24)"

definition getWeekStart :: "int \<Rightarrow> date \<Rightarrow> date" where
  "getWeekStart tz d =
     (let day = getDay tz d;
          diff = getDate tz d - day + (if day = 0 then - 6 else 1);
          weekStart = setDate tz d diff
      in setHours0 tz weekStart)"

section \<open>types.ts: the records of the analysis\<close>

datatype itemType = Issue | Pr

record IssueData =
  repository :: string
  number :: nat
  title :: string
  createdAt :: date
  firstResponseAt :: "date option"
  responseTimeHours :: "rat option"
  respondedBy :: "string option"
  reportedBy :: "string option"
  respondedWithinOneDay :: bool
  weekStarting :: date
  url :: string
  itype :: itemType

text \<open>
  A percentage is a double computed by a division whose divisor is a list length. Such a
  value is a \<open>number\<close>: a finite double or one of the three non-finite doubles a division
  by zero produces.
\<close>

datatype number = Num rat | NaN | PosInfinity | NegInfinity

definition jsDivide :: "rat \<Rightarrow> rat \<Rightarrow> number" where
  "jsDivide a b =
     (if b \<noteq> 0 then Num (toDouble (a / b))
      else if a = 0 then NaN
      else if 0 < a then PosInfinity else NegInfinity)"

fun jsTimes :: "number \<Rightarrow> rat \<Rightarrow> number" where
  "jsTimes (Num a) b = Num (toDouble (a * b))"
| "jsTimes NaN b = NaN"
| "jsTimes PosInfinity b = (if 0 < b then PosInfinity else if b < 0 then NegInfinity else NaN)"
| "jsTimes NegInfinity b = (if 0 < b then NegInfinity else if b < 0 then PosInfinity else NaN)"

text \<open>The fields of \<open>WeeklySummary\<close> carry the prefix \<open>ws\<close>: three of them share their
  names with fields of the other records.\<close>

record WeeklySummary =
  wsWeekStarting :: date
  wsTotalIssues :: nat
  wsRespondedWithinOneDay :: nat
  wsPercentage :: number

record OverallMetrics =
  totalIssues :: nat
  totalPRs :: nat
  issuesResponded :: nat
  prsResponded :: nat
  issuesWithinOneDay :: nat
  prsWithinOneDay :: nat
  issueResponseRate :: number
  prResponseRate :: number
  issueOneDayPercentage :: number
  prOneDayPercentage :: number
  minResponseTimeHours :: "rat option"
  maxResponseTimeHours :: "rat option"
  meanResponseTimeHours :: "rat option"
  medianResponseTimeHours :: "rat option"

section \<open>utils.ts: statistics of the response times\<close>

text \<open>The result object \<open>{min, max, mean, median}\<close>; \<open>None\<close> is \<open>null\<close>.\<close>

record Stats =
  statsMin :: "rat option"
  statsMax :: "rat option"
  statsMean :: "rat option"
  statsMedian :: "rat option"

text \<open>
  \<^verbatim>\<open>sort((a, b) => a - b)\<close> orders finite numbers ascending. After the early return the
  list is not empty, so the divisors \<open>sorted.length\<close> and 2 are not zero and every index
  read lies inside the list (lemma \<open>calculateStats_indices\<close> below). The sum of
  \<^verbatim>\<open>reduce\<close>, the mean and the median of an even number of values are rounded at each
  operation.
\<close>

definition calculateStats :: "rat list \<Rightarrow> Stats" where
  "calculateStats responseTimes =
     (if length responseTimes = 0 then
        \<lparr>statsMin = None, statsMax = None, statsMean = None, statsMedian = None\<rparr>
      else
        (let sorted = sort responseTimes;
             min = sorted ! 0;
             max = sorted ! (length sorted - 1);
             sum = foldl (\<lambda>acc val. toDouble (acc + val)) 0 sorted;
             mean = toDouble (sum / of_nat (length sorted));
             median =
               (if length sorted mod 2 = 0
                then toDouble
                       (toDouble (sorted ! (length sorted div 2 - 1) + sorted ! (length sorted div 2))
                        / 2)
                else sorted ! (length sorted div 2))
         in \<lparr>statsMin = Some min, statsMax = Some max,
             statsMean = Some mean, statsMedian = Some median\<rparr>))"

section \<open>metrics.ts: overall metrics and the weekly summary\<close>

definition calculateOverallMetrics :: "IssueData list \<Rightarrow> OverallMetrics" where
  "calculateOverallMetrics data =
     (let issues = filter (\<lambda>d. itype d = Issue) data;
          prs = filter (\<lambda>d. itype d = Pr) data;
          issuesResponded = length (filter (\<lambda>d. firstResponseAt d \<noteq> None) issues);
          prsResponded = length (filter (\<lambda>d. firstResponseAt d \<noteq> None) prs);
          issuesWithinOneDay = length (filter (\<lambda>d. respondedWithinOneDay d) issues);
          prsWithinOneDay = length (filter (\<lambda>d. respondedWithinOneDay d) prs);
          issueResponseRate =
            (if length issues > 0
             then jsTimes (jsDivide (of_nat issuesResponded) (of_nat (length issues))) 100
             else Num 0);
          prResponseRate =
            (if length prs > 0
             then jsTimes (jsDivide (of_nat prsResponded) (of_nat (length prs))) 100
             else Num 0);
          issueOneDayPercentage =
            (if length issues > 0
             then jsTimes (jsDivide (of_nat issuesWithinOneDay) (of_nat (length issues))) 100
             else Num 0);
          prOneDayPercentage =
            (if length prs > 0
             then jsTimes (jsDivide (of_nat prsWithinOneDay) (of_nat (length prs))) 100
             else Num 0);
          responseTimes =
            map (\<lambda>d. the (responseTimeHours d)) (filter (\<lambda>d. responseTimeHours d \<noteq> None) data);
          stats = calculateStats responseTimes
      in \<lparr>totalIssues = length issues,
          totalPRs = length prs,
          issuesResponded = issuesResponded,
          prsResponded = prsResponded,
          issuesWithinOneDay = issuesWithinOneDay,
          prsWithinOneDay = prsWithinOneDay,
          issueResponseRate = issueResponseRate,
          prResponseRate = prResponseRate,
          issueOneDayPercentage = issueOneDayPercentage,
          prOneDayPercentage = prOneDayPercentage,
          minResponseTimeHours = statsMin stats,
          maxResponseTimeHours = statsMax stats,
          meanResponseTimeHours = statsMean stats,
          medianResponseTimeHours = statsMedian stats\<rparr>)"

text \<open>
  The \<^verbatim>\<open>Map<string, {total, withinOneDay}>\<close> of \<open>calculateWeeklySummary\<close> is an
  association list in insertion order (\<open>AList.update\<close> replaces the value of a key that is
  present and appends a new key at the end, as \<^verbatim>\<open>Map.set\<close> does). The key
  \<^verbatim>\<open>weekStarting.toISOString()\<close> is modelled by the time value it prints, which
  \<^verbatim>\<open>new Date(weekKey)\<close> reads back.
\<close>

record WeekData =
  total :: nat
  withinOneDay :: nat

type_synonym weeklyMap = "(date \<times> WeekData) list"

text \<open>The body of the \<^verbatim>\<open>for (const item of data)\<close> loop.\<close>

definition weeklyStep :: "weeklyMap \<Rightarrow> IssueData \<Rightarrow> weeklyMap" where
  "weeklyStep weeklyMap item =
     (let weekKey = weekStarting item;
          weeklyMap1 =
            (if map_of weeklyMap weekKey = None
             then AList.update weekKey \<lparr>total = 0, withinOneDay = 0\<rparr> weeklyMap
             else weeklyMap)
      in case map_of weeklyMap1 weekKey of
           None \<Rightarrow> weeklyMap1
         | Some weekData \<Rightarrow>
             (let weekData1 = weekData\<lparr>total := total weekData + 1\<rparr>;
                  weekData2 =
                    (if respondedWithinOneDay item
                     then weekData1\<lparr>withinOneDay := withinOneDay weekData1 + 1\<rparr>
                     else weekData1)
              in AList.update weekKey weekData2 weeklyMap1))"

definition toSummary :: "date \<times> WeekData \<Rightarrow> WeeklySummary" where
  "toSummary entry =
     (case entry of (weekKey, data) \<Rightarrow>
        \<lparr>wsWeekStarting = weekKey,
         wsTotalIssues = total data,
         wsRespondedWithinOneDay = withinOneDay data,
         wsPercentage =
           (if total data > 0
            then jsTimes (jsDivide (of_nat (withinOneDay data)) (of_nat (total data))) 100
            else Num 0)\<rparr>)"

text \<open>\<^verbatim>\<open>sort((a, b) => a.weekStarting.getTime() - b.weekStarting.getTime())\<close> is a stable
  ascending sort by the time value, as \<open>sort_key\<close> is.\<close>

definition calculateWeeklySummary :: "IssueData list \<Rightarrow> WeeklySummary list" where
  "calculateWeeklySummary data =
     (let weeklyMap = foldl weeklyStep [] data
      in sort_key wsWeekStarting (map toSummary weeklyMap))"

section \<open>github.ts: the remote service and the analytics object\<close>

text \<open>
  The revision modelled is the one \<^verbatim>\<open>index.ts\<close> drives (\<^verbatim>\<open>fetchOrgMembers\<close>, then
  \<^verbatim>\<open>buildExcludeList\<close>, then \<^verbatim>\<open>fetchAllData\<close>). A rejected request is an \<open>error\<close>
  carrying its message; a call of the remote service returns \<open>error + 'a\<close>.
\<close>

datatype error = Error string

fun message :: "error \<Rightarrow> string" where
  "message (Error m) = m"

text \<open>\<^verbatim>\<open>s.includes(sub)\<close>: \<open>sub\<close> occurs in \<open>s\<close> as a contiguous substring.\<close>

fun stringIncludes :: "string \<Rightarrow> string \<Rightarrow> bool" where
  "stringIncludes [] sub = (sub = [])"
| "stringIncludes (c # s) sub = (take (length sub) (c # s) = sub \<or> stringIncludes s sub)"

text \<open>The test \<^verbatim>\<open>error.message && error.message.includes('rate limit')\<close> of the catch
  blocks.\<close>

definition isRateLimitError :: "error \<Rightarrow> bool" where
  "isRateLimitError e = (message e \<noteq> [] \<and> stringIncludes (message e) ''rate limit'')"

text \<open>What the program reads of the service's answers. Timestamps are already parsed
  (\<^verbatim>\<open>new Date(created_at)\<close>); \<open>None\<close> is \<^verbatim>\<open>null\<close> or a missing \<^verbatim>\<open>user\<close>.\<close>

record Comment =
  commentUser :: "string option"
  commentCreatedAt :: date

record Review =
  reviewUser :: "string option"
  submittedAt :: "date option"

record PrDetails =
  mergedAt :: "date option"
  mergedBy :: "string option"

record SearchItem =
  itemNumber :: nat
  itemTitle :: string
  itemCreatedAt :: date
  itemUser :: "string option"
  itemHtmlUrl :: string
  itemPullRequest :: bool
  itemState :: string

text \<open>
  The remote service (\<^verbatim>\<open>octokit\<close>). A search is identified by the components of its
  query string: owner, repository, \<^verbatim>\<open>is:issue\<close> or \<^verbatim>\<open>is:pr\<close>, and the two dates. The
  three event lists are the first page of at most ten entries, oldest first.
\<close>

record Api =
  orgsListMembers :: "string \<Rightarrow> error + string list"
  teamsListMembersInOrg :: "string \<Rightarrow> string \<Rightarrow> error + string list"
  searchIssuesAndPullRequests ::
    "string \<Rightarrow> string \<Rightarrow> itemType \<Rightarrow> date \<Rightarrow> date \<Rightarrow> error + SearchItem list"
  pullsGet :: "string \<Rightarrow> string \<Rightarrow> nat \<Rightarrow> error + PrDetails"
  issuesListComments :: "string \<Rightarrow> string \<Rightarrow> nat \<Rightarrow> error + Comment list"
  pullsListReviewComments :: "string \<Rightarrow> string \<Rightarrow> nat \<Rightarrow> error + Comment list"
  pullsListReviews :: "string \<Rightarrow> string \<Rightarrow> nat \<Rightarrow> error + Review list"

text \<open>The fields of a \<^verbatim>\<open>GitHubAnalytics\<close> object that the methods read and write.\<close>

record Analytics =
  organization :: string
  orgMembers :: "string set"
  excludedUsers :: "string set"

definition fetchOrgMembers :: "Api \<Rightarrow> Analytics \<Rightarrow> error + Analytics" where
  "fetchOrgMembers api this =
     (case orgsListMembers api (organization this) of
        Inl e \<Rightarrow> Inl (Error (''Failed to fetch org members: '' @ message e))
      | Inr members \<Rightarrow> Inr (this\<lparr>orgMembers := set members\<rparr>))"

definition isOrgMember :: "Analytics \<Rightarrow> string \<Rightarrow> bool" where
  "isOrgMember this username = (username \<in> orgMembers this)"

text \<open>The body of the loop over \<open>excludeTeams\<close>: a failed roster fetch is logged and skipped.\<close>

definition addTeam :: "Api \<Rightarrow> Analytics \<Rightarrow> string \<Rightarrow> Analytics" where
  "addTeam api this teamSlug =
     (case teamsListMembersInOrg api (organization this) teamSlug of
        Inl e \<Rightarrow> this
      | Inr members \<Rightarrow> this\<lparr>excludedUsers := excludedUsers this \<union> set members\<rparr>)"

definition buildExcludeList :: "Api \<Rightarrow> Analytics \<Rightarrow> string list \<Rightarrow> string list \<Rightarrow> Analytics" where
  "buildExcludeList api this excludeTeams excludeBots =
     (let this1 = this\<lparr>excludedUsers := excludedUsers this \<union> set excludeBots\<rparr>
      in if length excludeTeams = 0 then this1
         else foldl (addTeam api) this1 excludeTeams)"

definition isExcludedUser :: "Analytics \<Rightarrow> string \<Rightarrow> bool" where
  "isExcludedUser this username = (username \<in> excludedUsers this)"

subsection \<open>The response locator\<close>

record ResponseEvent =
  evDate :: date
  evAuthor :: string

record FirstResponse =
  respondedAt :: date
  respondedBy :: string

text \<open>The loops that push the comments (and review comments) of organisation members;
  \<^verbatim>\<open>author && ...\<close> asks for a login that is present and not empty.\<close>

fun commentResponses :: "Analytics \<Rightarrow> Comment list \<Rightarrow> ResponseEvent list" where
  "commentResponses this [] = []"
| "commentResponses this (comment # rest) =
     (case commentUser comment of
        None \<Rightarrow> commentResponses this rest
      | Some author \<Rightarrow>
          (if author \<noteq> [] \<and> isOrgMember this author
           then \<lparr>evDate = commentCreatedAt comment, evAuthor = author\<rparr> # commentResponses this rest
           else commentResponses this rest))"

fun reviewResponses :: "Analytics \<Rightarrow> Review list \<Rightarrow> ResponseEvent list" where
  "reviewResponses this [] = []"
| "reviewResponses this (review # rest) =
     (case reviewUser review of
        None \<Rightarrow> reviewResponses this rest
      | Some author \<Rightarrow>
          (case submittedAt review of
             None \<Rightarrow> reviewResponses this rest
           | Some submitted \<Rightarrow>
               (if author \<noteq> [] \<and> isOrgMember this author
                then \<lparr>evDate = submitted, evAuthor = author\<rparr> # reviewResponses this rest
                else reviewResponses this rest)))"

definition mergeResponses :: "Analytics \<Rightarrow> PrDetails option \<Rightarrow> ResponseEvent list" where
  "mergeResponses this prDetails =
     (case prDetails of
        None \<Rightarrow> []
      | Some details \<Rightarrow>
          (case (mergedAt details, mergedBy details) of
             (Some merged, Some mergedByLogin) \<Rightarrow>
               (if mergedByLogin \<noteq> [] \<and> isOrgMember this mergedByLogin
                then [\<lparr>evDate = merged, evAuthor = mergedByLogin\<rparr>]
                else [])
           | _ \<Rightarrow> []))"

text \<open>\<^verbatim>\<open>allResponses.reduce((min, curr) => curr.date < min.date ? curr : min)\<close> on a list
  that is not empty: the first element is the initial accumulator.\<close>

definition earliestResponse :: "ResponseEvent \<Rightarrow> ResponseEvent list \<Rightarrow> ResponseEvent" where
  "earliestResponse first rest =
     foldl (\<lambda>min curr. if evDate curr < evDate min then curr else min) first rest"

text \<open>The loop of the issue branch: the first comment of an organisation member.\<close>

fun firstOrgComment :: "Analytics \<Rightarrow> Comment list \<Rightarrow> FirstResponse option" where
  "firstOrgComment this [] = None"
| "firstOrgComment this (comment # rest) =
     (case commentUser comment of
        None \<Rightarrow> firstOrgComment this rest
      | Some author \<Rightarrow>
          (if author \<noteq> [] \<and> isOrgMember this author
           then Some \<lparr>respondedAt = commentCreatedAt comment, respondedBy = author\<rparr>
           else firstOrgComment this rest))"

text \<open>
  \<open>findFirstOrgResponse\<close>. Its \<^verbatim>\<open>catch\<close> takes every error of the three requests (for a
  pull request, awaited together) or of the one request (for an issue), logs it and
  returns \<^verbatim>\<open>null\<close>.
\<close>

definition findFirstOrgResponse ::
  "Api \<Rightarrow> Analytics \<Rightarrow> string \<Rightarrow> nat \<Rightarrow> itemType \<Rightarrow> PrDetails option \<Rightarrow> FirstResponse option" where
  "findFirstOrgResponse api this repo issueNumber ty prDetails =
     (if ty = Pr then
        (case (issuesListComments api (organization this) repo issueNumber,
               pullsListReviewComments api (organization this) repo issueNumber,
               pullsListReviews api (organization this) repo issueNumber) of
           (Inr comments, Inr reviewComments, Inr reviews) \<Rightarrow>
             (let allResponses =
                    commentResponses this comments @ commentResponses this reviewComments
                    @ reviewResponses this reviews @ mergeResponses this prDetails
              in case allResponses of
                   [] \<Rightarrow> None
                 | first # rest \<Rightarrow>
                     (let earliest = earliestResponse first rest
                      in Some \<lparr>respondedAt = evDate earliest, respondedBy = evAuthor earliest\<rparr>))
         | _ \<Rightarrow> None)
      else
        (case issuesListComments api (organization this) repo issueNumber of
           Inr comments \<Rightarrow> firstOrgComment this comments
         | Inl e \<Rightarrow> None))"

text \<open>
  The specification's wording of the response locator for a pull request, to compare
  \<open>findFirstOrgResponse\<close> with. By its glossary an eligible responder is a user not in the
  exclusion set. The qualifying events of the four sources, each with its timestamp and
  author, are the comments and the review comments of an eligible responder, the reviews
  of an eligible responder that have a submission timestamp, and the merge at the merge
  instant when the pull request was merged by an eligible responder.
\<close>

definition eligibleResponder :: "Analytics \<Rightarrow> string \<Rightarrow> bool" where
  "eligibleResponder this a = (a \<notin> excludedUsers this)"

definition qualifyingEvents ::
  "Analytics \<Rightarrow> Comment list \<Rightarrow> Comment list \<Rightarrow> Review list \<Rightarrow> PrDetails option
   \<Rightarrow> (date \<times> string) set" where
  "qualifyingEvents this comments reviewComments reviews prDetails =
     {(commentCreatedAt c, a) | c a.
        c \<in> set comments \<and> commentUser c = Some a \<and> eligibleResponder this a}
     \<union> {(commentCreatedAt c, a) | c a.
        c \<in> set reviewComments \<and> commentUser c = Some a \<and> eligibleResponder this a}
     \<union> {(t, a) | r t a.
        r \<in> set reviews \<and> reviewUser r = Some a \<and> submittedAt r = Some t
        \<and> eligibleResponder this a}
     \<union> {(t, a) | d t a.
        prDetails = Some d \<and> mergedAt d = Some t \<and> mergedBy d = Some a
        \<and> eligibleResponder this a}"

text \<open>The logins that author an event of the four sources.\<close>

definition eventAuthors ::
  "Comment list \<Rightarrow> Comment list \<Rightarrow> Review list \<Rightarrow> PrDetails option \<Rightarrow> string set" where
  "eventAuthors comments reviewComments reviews prDetails =
     {a. \<exists>c \<in> set comments \<union> set reviewComments. commentUser c = Some a}
     \<union> {a. \<exists>r \<in> set reviews. reviewUser r = Some a}
     \<union> {a. \<exists>d. prDetails = Some d \<and> mergedBy d = Some a}"

text \<open>A pushed response as the pair of its timestamp and its author.\<close>

definition eventPair :: "ResponseEvent \<Rightarrow> date \<times> string" where
  "eventPair e = (evDate e, evAuthor e)"

subsection \<open>The item processor and the fetch orchestrator\<close>

text \<open>\<^verbatim>\<open>x || null\<close> for a string: an empty string becomes \<^verbatim>\<open>null\<close>.\<close>

definition orNull :: "string option \<Rightarrow> string option" where
  "orNull x = (case x of None \<Rightarrow> None | Some v \<Rightarrow> if v = [] then None else Some v)"

text \<open>\<^verbatim>\<open>item.user?.login || ''\<close>.\<close>

definition authorOf :: "SearchItem \<Rightarrow> string" where
  "authorOf item = (case itemUser item of None \<Rightarrow> [] | Some login \<Rightarrow> login)"

text \<open>The record that both \<open>fetchIssues\<close> and \<open>processPullRequest\<close> assemble from the item
  and its first response.\<close>

definition assemble ::
  "int \<Rightarrow> string \<Rightarrow> SearchItem \<Rightarrow> itemType \<Rightarrow> FirstResponse option \<Rightarrow> IssueData" where
  "assemble tz repo item ty firstResponse =
     (let createdAt = itemCreatedAt item;
          responseTimeHours =
            (case firstResponse of
               Some r \<Rightarrow> Some (calculateWorkingHours tz createdAt (respondedAt r))
             | None \<Rightarrow> None);
          respondedWithinOneDay =
            (case firstResponse of
               Some r \<Rightarrow> isWithinOneWorkingDay tz createdAt (respondedAt r)
             | None \<Rightarrow> False)
      in \<lparr>repository = repo,
          number = itemNumber item,
          title = itemTitle item,
          createdAt = createdAt,
          firstResponseAt = map_option respondedAt firstResponse,
          responseTimeHours = responseTimeHours,
          respondedBy = orNull (map_option respondedBy firstResponse),
          reportedBy = orNull (itemUser item),
          respondedWithinOneDay = respondedWithinOneDay,
          weekStarting = getWeekStart tz createdAt,
          url = itemHtmlUrl item,
          itype = ty\<rparr>)"

text \<open>The loop of \<open>fetchIssues\<close> over the search results. Nothing in its body throws:
  \<open>findFirstOrgResponse\<close> returns \<^verbatim>\<open>null\<close> on every error.\<close>

fun issuesLoop :: "Api \<Rightarrow> Analytics \<Rightarrow> int \<Rightarrow> string \<Rightarrow> SearchItem list \<Rightarrow> IssueData list" where
  "issuesLoop api this tz repo [] = []"
| "issuesLoop api this tz repo (issue # rest) =
     (if itemPullRequest issue then issuesLoop api this tz repo rest
      else if isExcludedUser this (authorOf issue) then issuesLoop api this tz repo rest
      else assemble tz repo issue Issue
             (findFirstOrgResponse api this repo (itemNumber issue) Issue None)
           # issuesLoop api this tz repo rest)"

definition fetchIssues ::
  "Api \<Rightarrow> Analytics \<Rightarrow> int \<Rightarrow> string \<Rightarrow> date \<Rightarrow> date \<Rightarrow> error + IssueData list" where
  "fetchIssues api this tz repo startDate endDate =
     (case searchIssuesAndPullRequests api (organization this) repo Issue startDate endDate of
        Inl e \<Rightarrow> Inl (Error (''Failed to fetch issues for '' @ repo @ '': '' @ message e))
      | Inr searchResults \<Rightarrow> Inr (issuesLoop api this tz repo searchResults))"

text \<open>
  \<open>processPullRequest\<close>: \<open>Inr None\<close> is the \<^verbatim>\<open>null\<close> of a skipped pull request. Only the
  detail request \<^verbatim>\<open>pulls.get\<close> can throw inside its \<^verbatim>\<open>try\<close>; the \<^verbatim>\<open>catch\<close> rethrows
  an error whose message includes \<^verbatim>\<open>rate limit\<close> and turns any other into \<^verbatim>\<open>null\<close>.
\<close>

definition processPullRequest ::
  "Api \<Rightarrow> Analytics \<Rightarrow> int \<Rightarrow> string \<Rightarrow> SearchItem \<Rightarrow> error + IssueData option" where
  "processPullRequest api this tz repo pr =
     (if isExcludedUser this (authorOf pr) then Inr None
      else
        (case (if itemState pr = ''closed''
               then map_sum id Some (pullsGet api (organization this) repo (itemNumber pr))
               else Inr None) of
           Inl e \<Rightarrow> (if isRateLimitError e then Inl e else Inr None)
         | Inr prDetails \<Rightarrow>
             Inr (Some (assemble tz repo pr Pr
                    (findFirstOrgResponse api this repo (itemNumber pr) Pr prDetails)))))"

text \<open>
  \<^verbatim>\<open>Promise.all\<close>: the values in order, or a rejection when a promise rejects. Which
  rejection wins depends on timing in the program; the model takes the first in list order.
\<close>

fun promiseAll :: "(error + 'a) list \<Rightarrow> error + 'a list" where
  "promiseAll [] = Inr []"
| "promiseAll (Inl e # ps) = Inl e"
| "promiseAll (Inr v # ps) = (case promiseAll ps of Inl e \<Rightarrow> Inl e | Inr vs \<Rightarrow> Inr (v # vs))"

definition BATCH_SIZE :: nat where
  "BATCH_SIZE = 10"

text \<open>The loop \<^verbatim>\<open>for (let i = 0; i < pullRequests.length; i += BATCH_SIZE)\<close>, with the
  loop variables \<open>i\<close> and \<open>prs\<close> as arguments.\<close>

function batchLoop ::
  "Api \<Rightarrow> Analytics \<Rightarrow> int \<Rightarrow> string \<Rightarrow> SearchItem list \<Rightarrow> nat \<Rightarrow> IssueData list
   \<Rightarrow> error + IssueData list" where
  "batchLoop api this tz repo pullRequests i prs =
     (if i < length pullRequests then
        (let batch = take BATCH_SIZE (drop i pullRequests)
         in case promiseAll (map (processPullRequest api this tz repo) batch) of
              Inl e \<Rightarrow> Inl e
            | Inr results \<Rightarrow>
                batchLoop api this tz repo pullRequests (i + BATCH_SIZE)
                  (prs @ map the (filter (\<lambda>pr. pr \<noteq> None) results)))
      else Inr prs)"
  by pat_completeness auto
termination
  by (relation "measure (\<lambda>(api, this, tz, repo, pullRequests, i, prs). length pullRequests - i)")
     (simp_all add: BATCH_SIZE_def)

declare batchLoop.simps [simp del]

definition fetchPullRequests ::
  "Api \<Rightarrow> Analytics \<Rightarrow> int \<Rightarrow> string \<Rightarrow> date \<Rightarrow> date \<Rightarrow> error + IssueData list" where
  "fetchPullRequests api this tz repo startDate endDate =
     (case searchIssuesAndPullRequests api (organization this) repo Pr startDate endDate of
        Inl e \<Rightarrow> Inl (Error (''Failed to fetch PRs for '' @ repo @ '': '' @ message e))
      | Inr searchResults \<Rightarrow>
          (let pullRequests = filter itemPullRequest searchResults
           in case batchLoop api this tz repo pullRequests 0 [] of
                Inl e \<Rightarrow> Inl (Error (''Failed to fetch PRs for '' @ repo @ '': '' @ message e))
              | Inr prs \<Rightarrow> Inr prs))"

text \<open>The loop of \<open>fetchAllData\<close> over the repositories, with \<open>allData\<close> as an argument.\<close>

fun fetchAllLoop ::
  "Api \<Rightarrow> Analytics \<Rightarrow> int \<Rightarrow> string list \<Rightarrow> date \<Rightarrow> date \<Rightarrow> IssueData list
   \<Rightarrow> error + IssueData list" where
  "fetchAllLoop api this tz [] startDate endDate allData = Inr allData"
| "fetchAllLoop api this tz (repo # rest) startDate endDate allData =
     (case fetchIssues api this tz repo startDate endDate of
        Inl e \<Rightarrow> Inl e
      | Inr issues \<Rightarrow>
          (case fetchPullRequests api this tz repo startDate endDate of
             Inl e \<Rightarrow> Inl e
           | Inr prs \<Rightarrow> fetchAllLoop api this tz rest startDate endDate (allData @ issues @ prs)))"

definition fetchAllData ::
  "Api \<Rightarrow> Analytics \<Rightarrow> int \<Rightarrow> string list \<Rightarrow> date \<Rightarrow> date \<Rightarrow> error + IssueData list" where
  "fetchAllData api this tz repositories startDate endDate =
     fetchAllLoop api this tz repositories startDate endDate []"

section \<open>index.ts: the run\<close>

record Config =
  githubToken :: string
  cfgOrganization :: string
  repositories :: "string list"
  excludeTeams :: "string list"
  excludeBots :: "string list"

text \<open>
  How \<open>main\<close> ends: \<open>ConfigInvalid\<close> and \<open>Aborted\<close> are \<^verbatim>\<open>process.exit(1)\<close> (the latter from
  the \<^verbatim>\<open>catch\<close>, after printing the error's message and, when the message includes
  \<^verbatim>\<open>rate limit\<close>, the rate-limit advice), \<open>NoData\<close> is \<^verbatim>\<open>process.exit(0)\<close>, and \<open>Finished\<close>
  is the run that displays and saves its report.
\<close>

datatype RunResult =
    ConfigInvalid
  | Aborted error
  | NoData
  | Finished "IssueData list" OverallMetrics "WeeklySummary list"

fun exitCode :: "RunResult \<Rightarrow> nat" where
  "exitCode ConfigInvalid = 1"
| "exitCode (Aborted e) = 1"
| "exitCode NoData = 0"
| "exitCode (Finished data metrics weeklySummary) = 0"

definition main :: "Api \<Rightarrow> Config \<Rightarrow> int \<Rightarrow> date \<Rightarrow> date \<Rightarrow> RunResult" where
  "main api config tz startDate endDate =
     (if githubToken config = [] \<or> cfgOrganization config = [] \<or> length (repositories config) = 0
      then ConfigInvalid
      else
        (let analytics =
               \<lparr>organization = cfgOrganization config, orgMembers = {}, excludedUsers = {}\<rparr>
         in case fetchOrgMembers api analytics of
              Inl e \<Rightarrow> Aborted e
            | Inr analytics1 \<Rightarrow>
                (let analytics2 =
                       buildExcludeList api analytics1 (excludeTeams config) (excludeBots config)
                 in case fetchAllData api analytics2 tz (repositories config) startDate endDate of
                      Inl e \<Rightarrow> Aborted e
                    | Inr data \<Rightarrow>
                        (if length data = 0 then NoData
                         else Finished data (calculateOverallMetrics data)
                                (calculateWeeklySummary data)))))"

section \<open>Auxiliary notions for the proofs\<close>

text \<open>The value of \<open>hours\<close> after the loop body has run for the day of \<open>currentDate\<close>, with
  the period of that day ending at \<open>endOfPeriod\<close>.\<close>

definition hoursAfterDay :: "int \<Rightarrow> date \<Rightarrow> date \<Rightarrow> rat \<Rightarrow> rat" where
  "hoursAfterDay tz currentDate endOfPeriod hours =
     (if getDay tz currentDate \<noteq> 0 \<and> getDay tz currentDate \<noteq> 6
      then toDouble (hours + toDouble (of_int (endOfPeriod - currentDate) / of_int msPerHour))
      else hours)"

text \<open>The entry of a week in the map, with the initial entry for a week that is absent.\<close>

definition entryOf :: "weeklyMap \<Rightarrow> date \<Rightarrow> WeekData" where
  "entryOf m k = (case map_of m k of None \<Rightarrow> \<lparr>total = 0, withinOneDay = 0\<rparr> | Some d \<Rightarrow> d)"

text \<open>The invariant of a record, as the item processor establishes it in zone \<open>tz\<close>.\<close>

definition recordInvariant :: "int \<Rightarrow> IssueData \<Rightarrow> bool" where
  "recordInvariant tz d =
     ((respondedWithinOneDay d \<longleftrightarrow>
         (\<exists>t h. firstResponseAt d = Some t \<and> responseTimeHours d = Some h \<and> h \<le> 24))
      \<and> (responseTimeHours d = None \<longleftrightarrow> firstResponseAt d = None)
      \<and> (\<forall>t. firstResponseAt d = Some t \<longrightarrow>
             responseTimeHours d = Some (calculateWorkingHours tz (createdAt d) t)))"

section \<open>Sample records for the instances\<close>

text \<open>A record as the item processor assembles it (zone UTC), from the item's type, its
  creation instant and, when there is a first response, its instant and working hours.\<close>

definition sampleRecord :: "itemType \<Rightarrow> date \<Rightarrow> (date \<times> rat) option \<Rightarrow> IssueData" where
  "sampleRecord ty created response =
     \<lparr>repository = ''repo'', number = 1, title = ''title'', createdAt = created,
      firstResponseAt = map_option fst response,
      responseTimeHours = map_option snd response,
      respondedBy = (case response of None \<Rightarrow> None | Some r \<Rightarrow> Some ''alice''),
      reportedBy = Some ''carol'',
      respondedWithinOneDay = (case response of None \<Rightarrow> False | Some r \<Rightarrow> snd r \<le> 24),
      weekStarting = getWeekStart 0 created,
      url = ''u'', itype = ty\<rparr>"

text \<open>
  A small world for the instances: the organisation \<open>acme\<close> with the members \<open>alice\<close> and
  \<open>bob\<close>, the team \<open>core\<close> with the member \<open>alice\<close>, and the repository \<open>app\<close> with
  \<^item> issue 1 by \<open>carol\<close>, created Monday 2025-11-03 09:00 UTC, with a comment by \<open>carol\<close>
    at 10:00 and one by \<open>alice\<close> at 15:00;
  \<^item> issue 2 by \<open>alice\<close>;
  \<^item> issue 3 by \<open>dave\<close>, created Friday 2025-11-07 17:00, whose comment request is
    rejected with a rate-limit message;
  \<^item> pull request 4 by \<open>erin\<close>, created Friday 2025-11-07 17:00, closed, without comments
    or reviews, merged by \<open>bob\<close> on Monday 2025-11-10 10:00.
\<close>

definition sampleIssues :: "SearchItem list" where
  "sampleIssues =
     [\<lparr>itemNumber = 1, itemTitle = ''one'', itemCreatedAt = 1762160400000,
       itemUser = Some ''carol'', itemHtmlUrl = ''u1'', itemPullRequest = False,
       itemState = ''open''\<rparr>,
      \<lparr>itemNumber = 2, itemTitle = ''two'', itemCreatedAt = 1762160400000,
       itemUser = Some ''alice'', itemHtmlUrl = ''u2'', itemPullRequest = False,
       itemState = ''open''\<rparr>,
      \<lparr>itemNumber = 3, itemTitle = ''three'', itemCreatedAt = 1762534800000,
       itemUser = Some ''dave'', itemHtmlUrl = ''u3'', itemPullRequest = False,
       itemState = ''open''\<rparr>]"

definition samplePulls :: "SearchItem list" where
  "samplePulls =
     [\<lparr>itemNumber = 4, itemTitle = ''four'', itemCreatedAt = 1762534800000,
       itemUser = Some ''erin'', itemHtmlUrl = ''u4'', itemPullRequest = True,
       itemState = ''closed''\<rparr>]"

definition sampleApi :: Api where
  "sampleApi =
     \<lparr>orgsListMembers = (\<lambda>org. Inr [''alice'', ''bob'']),
      teamsListMembersInOrg = (\<lambda>org teamSlug. Inr [''alice'']),
      searchIssuesAndPullRequests =
        (\<lambda>owner repo ty startDate endDate.
           case ty of Issue \<Rightarrow> Inr sampleIssues | Pr \<Rightarrow> Inr samplePulls),
      pullsGet =
        (\<lambda>owner repo n. Inr \<lparr>mergedAt = Some 1762768800000, mergedBy = Some ''bob''\<rparr>),
      issuesListComments =
        (\<lambda>owner repo n.
           if n = 1 then
             Inr [\<lparr>commentUser = Some ''carol'', commentCreatedAt = 1762164000000\<rparr>,
                  \<lparr>commentUser = Some ''alice'', commentCreatedAt = 1762182000000\<rparr>]
           else if n = 3 then Inl (Error ''API rate limit exceeded for user ID 1'')
           else Inr []),
      pullsListReviewComments = (\<lambda>owner repo n. Inr []),
      pullsListReviews = (\<lambda>owner repo n. Inr [])\<rparr>"

text \<open>The same world with a review service that answers every request with an error.\<close>

definition sampleApiReviewsDown :: Api where
  "sampleApiReviewsDown =
     sampleApi\<lparr>pullsListReviews := (\<lambda>owner repo n. Inl (Error ''Server Error''))\<rparr>"

text \<open>The same world in which every comment request answers with one comment by \<open>carol\<close>,
  who is neither a member of the organisation nor in the exclusion set.\<close>

definition sampleApiCommunity :: Api where
  "sampleApiCommunity =
     sampleApi\<lparr>issuesListComments :=
       (\<lambda>owner repo n. Inr [\<lparr>commentUser = Some ''carol'', commentCreatedAt = 1762164000000\<rparr>])\<rparr>"

definition sampleConfig :: Config where
  "sampleConfig =
     \<lparr>githubToken = ''token'', cfgOrganization = ''acme'', repositories = [''app''],
      excludeTeams = [''core''], excludeBots = [''dependabot[bot]'']\<rparr>"

text \<open>The analytics object after \<open>fetchOrgMembers\<close> and \<open>buildExcludeList\<close> in this world
  (lemma \<open>sampleAnalytics_built\<close>).\<close>

definition sampleAnalytics :: Analytics where
  "sampleAnalytics =
     \<lparr>organization = ''acme'', orgMembers = {''alice'', ''bob''},
      excludedUsers = {''dependabot[bot]'', ''alice''}\<rparr>"

text \<open>The records of this world (lemma \<open>sample_fetchAllData\<close>).\<close>

definition sampleData :: "IssueData list" where
  "sampleData =
     [\<lparr>repository = ''app'', number = 1, title = ''one'', createdAt = 1762160400000,
       firstResponseAt = Some 1762182000000, responseTimeHours = Some 6,
       respondedBy = Some ''alice'', reportedBy = Some ''carol'',
       respondedWithinOneDay = True, weekStarting = 1762128000000, url = ''u1'',
       itype = Issue\<rparr>,
      \<lparr>repository = ''app'', number = 3, title = ''three'', createdAt = 1762534800000,
       firstResponseAt = None, responseTimeHours = None,
       respondedBy = None, reportedBy = Some ''dave'',
       respondedWithinOneDay = False, weekStarting = 1762128000000, url = ''u3'',
       itype = Issue\<rparr>,
      \<lparr>repository = ''app'', number = 4, title = ''four'', createdAt = 1762534800000,
       firstResponseAt = Some 1762768800000, responseTimeHours = Some 17,
       respondedBy = Some ''bob'', reportedBy = Some ''erin'',
       respondedWithinOneDay = True, weekStarting = 1762128000000, url = ''u4'',
       itype = Pr\<rparr>]"

section \<open>Facts about rounding to a double\<close>

lemma floor_bitlen_bounds:
  fixes y :: rat
  assumes "1 \<le> y"
  defines "k \<equiv> bitlen \<lfloor>y\<rfloor> - 1"
  shows "0 \<le> k" "2 ^ nat k \<le> y" "y < 2 ^ nat (k + 1)"
proof -
  let ?n = "\<lfloor>y\<rfloor>"
  have n: "0 < ?n" using assms(1) by simp
  from bitlen_bounds [OF n]
  have lo: "2 ^ nat k \<le> ?n" and hi: "?n < 2 ^ nat (bitlen ?n)"
    by (simp_all add: k_def)
  have "1 \<le> bitlen ?n"
    using n bitlen_eq_zero_iff [of ?n] bitlen_nonneg [of ?n] by linarith
  then show k0: "0 \<le> k" by (simp add: k_def)
  have "(of_int (2 ^ nat k) :: rat) \<le> of_int ?n"
    using lo by (simp only: of_int_le_iff)
  also have "\<dots> \<le> y" by simp
  finally show "2 ^ nat k \<le> y" by simp
  have "?n + 1 \<le> 2 ^ nat (k + 1)"
    using hi by (simp add: k_def)
  then have "(of_int (?n + 1) :: rat) \<le> of_int (2 ^ nat (k + 1))"
    by (simp only: of_int_le_iff)
  moreover have "y < of_int (?n + 1)"
    by simp linarith
  ultimately show "y < 2 ^ nat (k + 1)" by simp
qed

lemma binaryExponent_bounds:
  assumes "0 < x"
  shows "2 powi binaryExponent x \<le> x" "x < 2 powi (binaryExponent x + 1)"
proof -
  have "2 powi binaryExponent x \<le> x \<and> x < 2 powi (binaryExponent x + 1)"
  proof (cases "1 \<le> x")
    case True
    define k where "k = bitlen \<lfloor>x\<rfloor> - 1"
    from floor_bitlen_bounds [OF True]
    have k: "0 \<le> k" "2 ^ nat k \<le> x" "x < 2 ^ nat (k + 1)"
      by (simp_all add: k_def)
    have e: "binaryExponent x = k"
      using True by (simp add: binaryExponent_def k_def)
    show ?thesis
      unfolding e using k by (simp add: power_int_nonneg_exp)
  next
    case False
    define y where "y = 1 / x"
    have y1: "1 \<le> y" using False assms by (simp add: y_def)
    define k where "k = bitlen \<lfloor>y\<rfloor> - 1"
    from floor_bitlen_bounds [OF y1]
    have k: "0 \<le> k" "2 ^ nat k \<le> y" "y < 2 ^ nat (k + 1)"
      by (simp_all add: k_def)
    have xy: "x = 1 / y" using assms by (simp add: y_def)
    have up: "x \<le> 1 / 2 ^ nat k"
      using k(2) assms unfolding y_def by (simp add: field_simps)
    have low: "1 / 2 ^ nat (k + 1) < x"
      using k(3) assms unfolding y_def by (simp add: field_simps)
    have p1: "(2::rat) powi (- k) = 1 / 2 ^ nat k"
      using k(1) by (simp add: power_int_minus_divide power_int_nonneg_exp)
    have p2: "(2::rat) powi (- k - 1) = 1 / 2 ^ nat (k + 1)"
    proof -
      have "- k - 1 = - (k + 1)" by simp
      then show ?thesis
        using k(1) by (simp only: power_int_minus_divide) (simp add: power_int_nonneg_exp)
    qed
    show ?thesis
    proof (cases "x = 1 / 2 ^ nat k")
      case True
      then have e: "binaryExponent x = - k"
        using False by (simp add: binaryExponent_def k_def y_def Let_def)
      have "(2::rat) powi (- k + 1) = 2 powi (- k) * 2 powi 1"
        by (rule power_int_add) simp
      then have "(2::rat) powi (- k + 1) = x * 2"
        unfolding p1 using True by simp
      moreover have "2 powi (- k) = x" unfolding p1 using True by simp
      ultimately show ?thesis
        unfolding e using assms by simp
    next
      case ne: False
      then have e: "binaryExponent x = - k - 1"
        using False by (simp add: binaryExponent_def k_def y_def Let_def)
      have "x < 1 / 2 ^ nat k" using up ne by simp
      then show ?thesis
        unfolding e using low p1 p2 by simp
    qed
  qed
  then show "2 powi binaryExponent x \<le> x" "x < 2 powi (binaryExponent x + 1)"
    by simp_all
qed

lemma pow2_less_imp_less: "(2::rat) powi a < 2 powi b \<Longrightarrow> a < b"
proof (rule ccontr)
  assume lt: "(2::rat) powi a < 2 powi b" and "\<not> a < b"
  then have "b \<le> a" by simp
  then have "(2::rat) powi b \<le> 2 powi a"
    by (rule power_int_increasing) simp
  with lt show False by simp
qed

lemma pow2_mono: "a \<le> b \<Longrightarrow> (2::rat) powi a \<le> 2 powi b"
  by (rule power_int_increasing) simp_all

lemma binaryExponent_unique:
  assumes "2 powi e \<le> x" "x < 2 powi (e + 1)"
  shows "binaryExponent x = e"
proof -
  have "0 < (2::rat) powi e" by simp
  with assms(1) have x: "0 < x" by linarith
  note b = binaryExponent_bounds [OF x]
  have "(2::rat) powi e < 2 powi (binaryExponent x + 1)"
    using assms(1) b(2) by simp
  then have 1: "e < binaryExponent x + 1"
    by (rule pow2_less_imp_less)
  have "(2::rat) powi binaryExponent x < 2 powi (e + 1)"
    using assms(2) b(1) by simp
  then have 2: "binaryExponent x < e + 1"
    by (rule pow2_less_imp_less)
  from 1 2 show ?thesis by simp
qed

lemma roundEven_range: "\<lfloor>y\<rfloor> \<le> roundEven y \<and> roundEven y \<le> \<lfloor>y\<rfloor> + 1"
  by (simp add: roundEven_def Let_def)

lemma roundEven_error: "\<bar>of_int (roundEven y) - y\<bar> \<le> 1 / 2"
proof -
  define r where "r = y - of_int \<lfloor>y\<rfloor>"
  have r: "0 \<le> r" "r < 1"
    unfolding r_def by linarith+
  have y: "y = of_int \<lfloor>y\<rfloor> + r" by (simp add: r_def)
  consider "roundEven y = \<lfloor>y\<rfloor>" "r \<le> 1 / 2" | "roundEven y = \<lfloor>y\<rfloor> + 1" "1 / 2 \<le> r"
    unfolding roundEven_def Let_def r_def [symmetric]
    by (cases "r < 1 / 2"; cases "1 / 2 < r"; cases "even \<lfloor>y\<rfloor>") auto
  then show ?thesis
  proof cases
    case 1
    then have "of_int (roundEven y) - y = - r" using y by simp
    then show ?thesis using r 1(2) by simp
  next
    case 2
    then have "of_int (roundEven y) - y = 1 - r" using y by simp
    then show ?thesis using r 2(2) by simp
  qed
qed

lemma pow2_split: "(2::rat) powi (a + b) = 2 powi a * 2 powi b"
  by (rule power_int_add) simp

lemma pow2_shift:
  "(2::rat) powi e = 2 ^ 52 * 2 powi (e - 52)"
  "(2::rat) powi (e + 1) = 2 ^ 53 * 2 powi (e - 52)"
  using pow2_split [of 52 "e - 52"] pow2_split [of 53 "e - 52"]
  by (simp_all add: add.commute)

lemma roundEven_of_int [simp]: "roundEven (of_int n) = n"
  by (simp add: roundEven_def)

lemma roundEven_mono:
  assumes "y \<le> z"
  shows "roundEven y \<le> roundEven z"
proof (cases "\<lfloor>y\<rfloor> = \<lfloor>z\<rfloor>")
  case True
  then show ?thesis
    using assms by (auto simp: roundEven_def Let_def)
next
  case False
  with floor_mono [OF assms] have "\<lfloor>y\<rfloor> + 1 \<le> \<lfloor>z\<rfloor>" by simp
  then show ?thesis
    using roundEven_range [of y] roundEven_range [of z] by linarith
qed

text \<open>The significand of a positive number lies between \<open>2^52\<close> and \<open>2^53\<close>.\<close>

lemma significand_bounds:
  assumes "0 < x"
  defines "s \<equiv> (2::rat) powi (binaryExponent x - 52)"
  shows "0 < s" "2 ^ 52 \<le> x / s" "x / s < 2 ^ 53"
    "2 ^ 52 \<le> roundEven (x / s)" "roundEven (x / s) \<le> 2 ^ 53"
proof -
  let ?e = "binaryExponent x"
  show s: "0 < s" by (simp add: s_def)
  have e: "2 powi ?e = 2 ^ 52 * s" and e1: "2 powi (?e + 1) = 2 ^ 53 * s"
    unfolding s_def by (rule pow2_shift)+
  from binaryExponent_bounds [OF assms(1)]
  have "2 ^ 52 * s \<le> x" "x < 2 ^ 53 * s"
    unfolding e e1 by simp_all
  then show lo: "2 ^ 52 \<le> x / s" and hi: "x / s < 2 ^ 53"
    using s by (simp_all add: pos_le_divide_eq pos_divide_less_eq)
  have "roundEven (of_int (2 ^ 52)) \<le> roundEven (x / s)"
    by (rule roundEven_mono) (use lo in simp)
  then show "2 ^ 52 \<le> roundEven (x / s)" by (simp only: roundEven_of_int)
  have "roundEven (x / s) \<le> roundEven (of_int (2 ^ 53))"
    by (rule roundEven_mono) (use hi in simp)
  then show "roundEven (x / s) \<le> 2 ^ 53" by (simp only: roundEven_of_int)
qed

lemma toDouble_pos:
  assumes "0 < x"
  shows "toDouble x = of_int (roundEven (x / 2 powi (binaryExponent x - 52)))
                       * 2 powi (binaryExponent x - 52)"
  using assms by (simp add: toDouble_def Let_def)

lemma toDouble_range:
  assumes "0 < x"
  shows "2 powi binaryExponent x \<le> toDouble x" "toDouble x \<le> 2 powi (binaryExponent x + 1)"
proof -
  let ?e = "binaryExponent x"
  define s where "s = (2::rat) powi (?e - 52)"
  note b = significand_bounds [OF assms, folded s_def]
  have e: "2 powi ?e = 2 ^ 52 * s" and e1: "2 powi (?e + 1) = 2 ^ 53 * s"
    unfolding s_def by (rule pow2_shift)+
  have t: "toDouble x = of_int (roundEven (x / s)) * s"
    using toDouble_pos [OF assms] by (simp add: s_def)
  have "(of_int (2 ^ 52) :: rat) \<le> of_int (roundEven (x / s))"
    using b(4) by (simp only: of_int_le_iff)
  then have "2 ^ 52 * s \<le> of_int (roundEven (x / s)) * s"
    using b(1) by (simp add: mult_right_mono)
  then show "2 powi ?e \<le> toDouble x" by (simp add: e t)
  have "(of_int (roundEven (x / s)) :: rat) \<le> of_int (2 ^ 53)"
    using b(5) by (simp only: of_int_le_iff)
  then have "of_int (roundEven (x / s)) * s \<le> 2 ^ 53 * s"
    using b(1) by (simp add: mult_right_mono)
  then show "toDouble x \<le> 2 powi (?e + 1)" by (simp add: e1 t)
qed

lemma toDouble_error:
  assumes "0 < x"
  shows "\<bar>toDouble x - x\<bar> \<le> x / 2 ^ 53"
proof -
  let ?e = "binaryExponent x"
  define s where "s = (2::rat) powi (?e - 52)"
  note b = significand_bounds [OF assms, folded s_def]
  have t: "toDouble x = of_int (roundEven (x / s)) * s"
    using toDouble_pos [OF assms] by (simp add: s_def)
  have "toDouble x - x = (of_int (roundEven (x / s)) - x / s) * s"
    using b(1) by (simp add: t algebra_simps)
  then have "\<bar>toDouble x - x\<bar> = \<bar>of_int (roundEven (x / s)) - x / s\<bar> * s"
    using b(1) by (simp add: abs_mult)
  also have "\<dots> \<le> 1 / 2 * s"
    using roundEven_error [of "x / s"] b(1) by (simp add: mult_right_mono)
  also have "\<dots> \<le> x / 2 ^ 53"
  proof -
    have "2 ^ 52 * s \<le> x" using b(1,2) by (simp add: pos_le_divide_eq)
    then show ?thesis by simp
  qed
  finally show ?thesis .
qed

lemma toDouble_zero [simp]: "toDouble 0 = 0"
  by (simp add: toDouble_def)

lemma toDouble_nonneg: "0 \<le> x \<Longrightarrow> 0 \<le> toDouble x"
proof (cases "x = 0")
  case True
  then show ?thesis by simp
next
  case False
  assume "0 \<le> x"
  with False have x: "0 < x" by simp
  have "0 < (2::rat) powi binaryExponent x" by simp
  with toDouble_range(1) [OF x] show ?thesis by linarith
qed

lemma toDouble_pos_pos: "0 < x \<Longrightarrow> 0 < toDouble x"
proof -
  assume x: "0 < x"
  have "0 < (2::rat) powi binaryExponent x" by simp
  with toDouble_range(1) [OF x] show ?thesis by linarith
qed

lemma toDouble_representable:
  assumes "2 ^ 52 \<le> m" "m < 2 ^ 53"
  shows "toDouble (of_int m * 2 powi q) = of_int m * 2 powi q"
proof -
  define x :: rat where "x = of_int m * 2 powi q"
  have s: "0 < (2::rat) powi q" by simp
  have m: "(2::rat) ^ 52 \<le> of_int m" "(of_int m :: rat) < 2 ^ 53"
  proof -
    have "(of_int (2 ^ 52) :: rat) \<le> of_int m" using assms(1) by (simp only: of_int_le_iff)
    then show "(2::rat) ^ 52 \<le> of_int m" by simp
    have "(of_int m :: rat) < of_int (2 ^ 53)" using assms(2) by (simp only: of_int_less_iff)
    then show "(of_int m :: rat) < 2 ^ 53" by simp
  qed
  have lo: "2 powi (q + 52) \<le> x"
    using pow2_shift(1) [of "q + 52"] m(1) s by (simp add: x_def mult_right_mono)
  have hi: "x < 2 powi (q + 52 + 1)"
    using pow2_shift(2) [of "q + 52"] m(2) s by (simp add: x_def mult_strict_right_mono)
  have e: "binaryExponent x = q + 52"
    by (rule binaryExponent_unique [OF lo hi])
  have x: "0 < x" using m(1) s by (simp add: x_def zero_less_mult_iff)
  have "toDouble x = of_int (roundEven (x / 2 powi q)) * 2 powi q"
    using toDouble_pos [OF x] by (simp add: e)
  also have "x / 2 powi q = of_int m" by (simp add: x_def)
  finally show ?thesis by (simp add: x_def)
qed

lemma toDouble_idem:
  assumes "0 \<le> x"
  shows "toDouble (toDouble x) = toDouble x"
proof (cases "x = 0")
  case True
  then show ?thesis by simp
next
  case False
  with assms have x: "0 < x" by simp
  define q where "q = binaryExponent x - 52"
  define m where "m = roundEven (x / 2 powi q)"
  note b = significand_bounds [OF x, folded q_def, folded m_def]
  have t: "toDouble x = of_int m * 2 powi q"
    using toDouble_pos [OF x] by (simp add: q_def m_def)
  show ?thesis
  proof (cases "m < 2 ^ 53")
    case True
    then show ?thesis
      unfolding t using b(4) by (intro toDouble_representable) simp_all
  next
    case False
    with b(5) have m: "m = 2 ^ 53" by simp
    have "of_int m * (2::rat) powi q = of_int (2 ^ 52) * 2 powi (q + 1)"
      using pow2_split [of q 1] by (simp add: m)
    moreover have "toDouble (of_int (2 ^ 52) * 2 powi (q + 1)) = of_int (2 ^ 52) * 2 powi (q + 1)"
      by (rule toDouble_representable) simp_all
    ultimately show ?thesis unfolding t by simp
  qed
qed

lemma toDouble_mono:
  assumes "0 \<le> x" "x \<le> y"
  shows "toDouble x \<le> toDouble y"
proof (cases "x = 0")
  case True
  then show ?thesis using assms toDouble_nonneg [of y] by simp
next
  case False
  with assms have x: "0 < x" and y: "0 < y" by simp_all
  let ?ex = "binaryExponent x" and ?ey = "binaryExponent y"
  have "2 powi ?ex \<le> x" by (rule binaryExponent_bounds [OF x])
  also have "\<dots> \<le> y" by (rule assms(2))
  also have "\<dots> < 2 powi (?ey + 1)" by (rule binaryExponent_bounds [OF y])
  finally have "?ex < ?ey + 1" by (rule pow2_less_imp_less)
  then consider "?ex = ?ey" | "?ex + 1 \<le> ?ey" by linarith
  then show ?thesis
  proof cases
    case 1
    define s where "s = (2::rat) powi (?ex - 52)"
    have s: "0 < s" by (simp add: s_def)
    have "x / s \<le> y / s" using assms(2) s by (simp add: divide_right_mono)
    then have "roundEven (x / s) \<le> roundEven (y / s)" by (rule roundEven_mono)
    then have "(of_int (roundEven (x / s)) :: rat) \<le> of_int (roundEven (y / s))"
      by (simp only: of_int_le_iff)
    then have "of_int (roundEven (x / s)) * s \<le> of_int (roundEven (y / s)) * s"
      using s by (simp add: mult_right_mono)
    then show ?thesis
      using toDouble_pos [OF x] toDouble_pos [OF y] 1 by (simp add: s_def)
  next
    case 2
    have "toDouble x \<le> 2 powi (?ex + 1)" by (rule toDouble_range [OF x])
    also have "\<dots> \<le> 2 powi ?ey" using 2 by (rule pow2_mono)
    also have "\<dots> \<le> toDouble y" by (rule toDouble_range [OF y])
    finally show ?thesis .
  qed
qed

lemma toDouble_double: "toDouble (2 * x) = 2 * toDouble x" if "0 \<le> x"
proof (cases "x = 0")
  case True
  then show ?thesis by simp
next
  case False
  with that have x: "0 < x" by simp
  let ?e = "binaryExponent x"
  note b = binaryExponent_bounds [OF x]
  have p1: "(2::rat) powi (?e + 1) = 2 * 2 powi ?e"
    using pow2_split [of 1 ?e] by (simp add: add.commute)
  have p2: "(2::rat) powi (?e + 1 + 1) = 2 * 2 powi (?e + 1)"
    using pow2_split [of 1 "?e + 1"] by (simp add: add.commute)
  have e: "binaryExponent (2 * x) = ?e + 1"
    by (rule binaryExponent_unique) (use b p1 p2 in simp_all)
  have s: "(2::rat) powi (?e + 1 - 52) = 2 * 2 powi (?e - 52)"
    using pow2_split [of 1 "?e - 52"] by (simp add: add.commute)
  have x2: "0 < 2 * x" using x by simp
  show ?thesis
    unfolding toDouble_pos [OF x2] toDouble_pos [OF x] e s by simp
qed

lemma toDouble_half: "toDouble (x / 2) = toDouble x / 2" if "0 \<le> x"
proof -
  have "0 \<le> x / 2" using that by simp
  from toDouble_double [OF this] show ?thesis by simp
qed


lemma toDouble_rel:
  assumes "0 \<le> x"
  shows "(1 - unitRoundoff) * x \<le> toDouble x" "toDouble x \<le> (1 + unitRoundoff) * x"
proof -
  have "(1 - unitRoundoff) * x \<le> toDouble x \<and> toDouble x \<le> (1 + unitRoundoff) * x"
  proof (cases "x = 0")
    case True
    then show ?thesis by simp
  next
    case False
    with assms have "0 < x" by simp
    from toDouble_error [OF this] have "\<bar>toDouble x - x\<bar> \<le> unitRoundoff * x"
      by (simp add: unitRoundoff_def)
    then have "toDouble x - x \<le> unitRoundoff * x" "- (toDouble x - x) \<le> unitRoundoff * x"
      by (simp_all only: abs_le_iff)
    then have "x - unitRoundoff * x \<le> toDouble x" "toDouble x \<le> x + unitRoundoff * x"
      by (simp_all add: algebra_simps)
    moreover have "(1 - unitRoundoff) * x = x - unitRoundoff * x"
      "(1 + unitRoundoff) * x = x + unitRoundoff * x"
      by (simp_all add: left_diff_distrib distrib_right)
    ultimately show ?thesis by simp
  qed
  then show "(1 - unitRoundoff) * x \<le> toDouble x" "toDouble x \<le> (1 + unitRoundoff) * x"
    by simp_all
qed

lemma unitRoundoff_bounds: "0 \<le> 1 - unitRoundoff" "1 - unitRoundoff \<le> 1" "1 \<le> 1 + unitRoundoff"
  by (simp_all add: unitRoundoff_def)

text \<open>One rounded addition of a rounded term, between the bounds of the accumulator.\<close>

lemma roundedAdd_bounds:
  assumes "0 \<le> L" "L \<le> h" "h \<le> U" "0 \<le> q"
  shows "(1 - unitRoundoff)\<^sup>2 * (L + q) \<le> toDouble (h + toDouble q)"
    and "toDouble (h + toDouble q) \<le> (1 + unitRoundoff)\<^sup>2 * (U + q)"
proof -
  let ?a = "1 - unitRoundoff" and ?b = "1 + unitRoundoff"
  note u = unitRoundoff_bounds
  have q: "?a * q \<le> toDouble q" "toDouble q \<le> ?b * q" "0 \<le> toDouble q"
    using toDouble_rel [OF assms(4)] toDouble_nonneg [OF assms(4)] by simp_all
  have h0: "0 \<le> h" using assms(1,2) by simp
  then have z: "0 \<le> h + toDouble q" using q(3) by simp
  have "?a * L \<le> 1 * L" using u(2) assms(1) by (rule mult_right_mono)
  then have "?a * L \<le> L" by simp
  then have "?a * (L + q) \<le> h + toDouble q"
    using assms(2) q(1) by (simp add: distrib_left)
  then have "?a * (?a * (L + q)) \<le> ?a * (h + toDouble q)"
    using u(1) by (rule mult_left_mono)
  also have "\<dots> \<le> toDouble (h + toDouble q)"
    by (rule toDouble_rel [OF z])
  finally show "?a\<^sup>2 * (L + q) \<le> toDouble (h + toDouble q)"
    by (simp add: power2_eq_square mult.assoc)
  have U0: "0 \<le> U" using h0 assms(3) by simp
  have "1 * U \<le> ?b * U" using u(3) U0 by (rule mult_right_mono)
  then have "U \<le> ?b * U" by simp
  then have le: "h + toDouble q \<le> ?b * (U + q)"
    using assms(3) q(2) by (simp add: distrib_left)
  have "toDouble (h + toDouble q) \<le> ?b * (h + toDouble q)"
    by (rule toDouble_rel [OF z])
  also have "\<dots> \<le> ?b * (?b * (U + q))"
    using le u(3) by (intro mult_left_mono) simp_all
  finally show "toDouble (h + toDouble q) \<le> ?b\<^sup>2 * (U + q)"
    by (simp add: power2_eq_square mult.assoc)
qed

section \<open>Facts about the calendar and the working-hours loop\<close>

lemma dayIndex_dayStart [simp]: "dayIndex tz (dayStart tz D) = D"
  by (simp add: dayIndex_def dayStart_def msPerDay_def)

lemma dayStart_mono: "D \<le> D' \<Longrightarrow> dayStart tz D \<le> dayStart tz D'"
  by (simp add: dayStart_def msPerDay_def)

lemma dayIndex_mono: "t \<le> t' \<Longrightarrow> dayIndex tz t \<le> dayIndex tz t'"
  by (simp add: dayIndex_def msPerDay_def zdiv_mono1)

lemma workingHoursLoop_done:
  "\<not> currentDate < endDate \<Longrightarrow> workingHoursLoop tz currentDate endDate hours = hours"
  by (subst workingHoursLoop.simps) simp

text \<open>One iteration of the loop.\<close>

lemma workingHoursLoop_step:
  assumes "currentDate < endDate"
  shows "workingHoursLoop tz currentDate endDate hours =
         workingHoursLoop tz (dayStart tz (dayIndex tz currentDate + 1)) endDate
           (hoursAfterDay tz currentDate
              (if dayStart tz (dayIndex tz currentDate + 1) < endDate
               then dayStart tz (dayIndex tz currentDate + 1) else endDate) hours)"
  using assms
  by (subst workingHoursLoop.simps) (simp add: Let_def nextMidnight_eq hoursAfterDay_def)

text \<open>A day that ends at or before \<open>endDate\<close> is counted up to its midnight.\<close>

lemma workingHoursLoop_full_day:
  assumes "dayStart tz (dayIndex tz currentDate + 1) \<le> endDate"
  shows "workingHoursLoop tz currentDate endDate hours =
         workingHoursLoop tz (dayStart tz (dayIndex tz currentDate + 1)) endDate
           (hoursAfterDay tz currentDate (dayStart tz (dayIndex tz currentDate + 1)) hours)"
proof -
  let ?n = "dayStart tz (dayIndex tz currentDate + 1)"
  have "currentDate < ?n" by (rule dayStart_succ_gt)
  with assms have lt: "currentDate < endDate" by simp
  have "(if ?n < endDate then ?n else endDate) = ?n" using assms by simp
  with workingHoursLoop_step [OF lt, of tz hours] show ?thesis by simp
qed



text \<open>Within one weekday the result is the period in hours, rounded and added once.\<close>

lemma workingHoursLoop_same_day:
  assumes "currentDate < endDate" and "dayIndex tz currentDate = dayIndex tz endDate"
    and "weekDayOf (dayIndex tz currentDate) \<noteq> 0" "weekDayOf (dayIndex tz currentDate) \<noteq> 6"
  shows "workingHoursLoop tz currentDate endDate hours =
         toDouble (hours + toDouble (of_int (endDate - currentDate) / of_int msPerHour))"
proof -
  let ?n = "dayStart tz (dayIndex tz currentDate + 1)"
  have n: "endDate < ?n"
    using dayStart_succ_gt [of endDate tz] assms(2) by simp
  then have "(if ?n < endDate then ?n else endDate) = endDate" by simp
  with workingHoursLoop_step [OF assms(1), of tz hours]
  have "workingHoursLoop tz currentDate endDate hours
        = workingHoursLoop tz ?n endDate (hoursAfterDay tz currentDate endDate hours)"
    by simp
  also have "\<dots> = hoursAfterDay tz currentDate endDate hours"
    using n by (simp add: workingHoursLoop_done)
  finally show ?thesis
    using assms(3,4) by (simp add: hoursAfterDay_def getDay_def)
qed

text \<open>The hours stay a non-negative double.\<close>

lemma hoursAfterDay_double:
  assumes "0 \<le> hours" "toDouble hours = hours" "currentDate \<le> endOfPeriod"
  shows "0 \<le> hoursAfterDay tz currentDate endOfPeriod hours"
    and "toDouble (hoursAfterDay tz currentDate endOfPeriod hours)
         = hoursAfterDay tz currentDate endOfPeriod hours"
proof -
  let ?q = "of_int (endOfPeriod - currentDate) / of_int msPerHour :: rat"
  have q: "0 \<le> ?q" using assms(3) by (simp add: msPerHour_def)
  then have z: "0 \<le> hours + toDouble ?q"
    using assms(1) toDouble_nonneg [of ?q] by simp
  show "0 \<le> hoursAfterDay tz currentDate endOfPeriod hours"
    using assms(1) toDouble_nonneg [OF z] by (simp add: hoursAfterDay_def)
  show "toDouble (hoursAfterDay tz currentDate endOfPeriod hours)
         = hoursAfterDay tz currentDate endOfPeriod hours"
    using assms(2) toDouble_idem [OF z] by (simp add: hoursAfterDay_def)
qed

lemma workingHoursLoop_double_aux:
  "nat (dayIndex tz endDate + 1 - dayIndex tz currentDate) = n \<Longrightarrow>
   0 \<le> hours \<Longrightarrow> toDouble hours = hours \<Longrightarrow>
   0 \<le> workingHoursLoop tz currentDate endDate hours
   \<and> toDouble (workingHoursLoop tz currentDate endDate hours)
       = workingHoursLoop tz currentDate endDate hours"
proof (induction n arbitrary: currentDate hours)
  case 0
  then have "dayIndex tz endDate < dayIndex tz currentDate" by simp
  then have "\<not> currentDate < endDate"
    using dayIndex_mono [of currentDate endDate tz] by auto
  then show ?case using "0.prems" by (simp add: workingHoursLoop_done)
next
  case (Suc n)
  show ?case
  proof (cases "currentDate < endDate")
    case False
    then show ?thesis using Suc.prems by (simp add: workingHoursLoop_done)
  next
    case True
    let ?n = "dayStart tz (dayIndex tz currentDate + 1)"
    let ?eop = "if ?n < endDate then ?n else endDate"
    let ?h = "hoursAfterDay tz currentDate ?eop hours"
    have "currentDate < ?n" by (rule dayStart_succ_gt)
    with True have le: "currentDate \<le> ?eop" by simp
    note h = hoursAfterDay_double [OF Suc.prems(2,3) le, of tz]
    have m: "nat (dayIndex tz endDate + 1 - dayIndex tz ?n) = n"
      using Suc.prems(1) by simp
    show ?thesis
      unfolding workingHoursLoop_step [OF True]
      by (rule Suc.IH [OF m h])
  qed
qed

lemma workingHoursLoop_double:
  "0 \<le> hours \<Longrightarrow> toDouble hours = hours \<Longrightarrow>
   0 \<le> workingHoursLoop tz currentDate endDate hours
   \<and> toDouble (workingHoursLoop tz currentDate endDate hours)
       = workingHoursLoop tz currentDate endDate hours"
  by (rule workingHoursLoop_double_aux [OF refl])

lemma calculateWorkingHours_double:
  "0 \<le> calculateWorkingHours tz start endDate"
  "toDouble (calculateWorkingHours tz start endDate) = calculateWorkingHours tz start endDate"
  using workingHoursLoop_double [of 0 tz start endDate]
  by (auto simp: calculateWorkingHours_def)




lemma setHours0_shift:
  "setHours0 tz (t + k * msPerDay) = dayStart tz (dayIndex tz t + k)"
proof -
  have "t + k * msPerDay + tz = (t + tz) + k * msPerDay"
    by simp
  then have "(t + k * msPerDay + tz) mod msPerDay = (t + tz) mod msPerDay"
    by (simp only: mod_mult_self1)
  moreover have "(t + tz) div msPerDay * msPerDay + (t + tz) mod msPerDay = t + tz"
    by (rule div_mult_mod_eq)
  ultimately show ?thesis
    unfolding setHours0_def dayStart_def dayIndex_def
    by (simp add: algebra_simps)
qed

lemma getWeekStart_eq:
  "getWeekStart tz d =
     dayStart tz (dayIndex tz d - (if getDay tz d = 0 then 6 else getDay tz d - 1))"
proof -
  let ?g = "getDay tz d"
  let ?k = "if ?g = 0 then - 6 else 1 - ?g"
  have "getDate tz d - ?g + (if ?g = 0 then - 6 else 1) - getDate tz d = ?k"
    by simp
  then have "getWeekStart tz d = setHours0 tz (d + ?k * msPerDay)"
    by (simp only: getWeekStart_def Let_def setDate_def)
  also have "\<dots> = dayStart tz (dayIndex tz d + ?k)"
    by (rule setHours0_shift)
  also have "dayIndex tz d + ?k = dayIndex tz d - (if ?g = 0 then 6 else ?g - 1)"
    by simp
  finally show ?thesis .
qed

text \<open>
  Over weekdays only, the loop adds the wall-clock time up to rounding: two roundings for
  every calendar day, each by at most the unit roundoff.
\<close>

lemma power_pair_le:
  fixes a :: rat
  assumes "0 \<le> a" "a \<le> 1" "0 \<le> x" "0 \<le> y"
  shows "a\<^sup>2 * (x + y) \<le> a\<^sup>2 * x + y"
proof -
  have "a\<^sup>2 \<le> 1" using assms(1,2) by (simp add: power_le_one)
  then have "a\<^sup>2 * y \<le> 1 * y" using assms(4) by (rule mult_right_mono)
  then show ?thesis by (simp add: distrib_left)
qed

lemma power_pair_ge:
  fixes b :: rat
  assumes "1 \<le> b" "0 \<le> y"
  shows "b\<^sup>2 * x + y \<le> b\<^sup>2 * (x + y)"
proof -
  have "1 \<le> b\<^sup>2" using assms(1) by (simp add: one_le_power)
  then have "1 * y \<le> b\<^sup>2 * y" using assms(2) by (rule mult_right_mono)
  then show ?thesis by (simp add: distrib_left)
qed

lemma workingHoursLoop_bounds:
  assumes "dayIndex tz endDate = dayIndex tz currentDate + int k"
    and "currentDate \<le> endDate"
    and "\<forall>d. dayIndex tz currentDate \<le> d \<and> d \<le> dayIndex tz endDate
           \<longrightarrow> weekDayOf d \<noteq> 0 \<and> weekDayOf d \<noteq> 6"
    and "0 \<le> L" "L \<le> hours" "hours \<le> U"
  shows "(1 - unitRoundoff) ^ (2 * (k + 1))
           * (L + of_int (endDate - currentDate) / of_int msPerHour)
         \<le> workingHoursLoop tz currentDate endDate hours
       \<and> workingHoursLoop tz currentDate endDate hours
         \<le> (1 + unitRoundoff) ^ (2 * (k + 1))
           * (U + of_int (endDate - currentDate) / of_int msPerHour)"
  using assms
proof (induction k arbitrary: currentDate hours L U)
  case 0
  let ?a = "1 - unitRoundoff" and ?b = "1 + unitRoundoff"
  let ?T = "of_int (endDate - currentDate) / of_int msPerHour :: rat"
  note u = unitRoundoff_bounds
  have sd: "dayIndex tz currentDate = dayIndex tz endDate" using "0.prems"(1) by simp
  have wd: "weekDayOf (dayIndex tz currentDate) \<noteq> 0" "weekDayOf (dayIndex tz currentDate) \<noteq> 6"
    using "0.prems"(3) sd by simp_all
  show ?case
  proof (cases "currentDate < endDate")
    case True
    have T: "0 \<le> ?T" using True by (simp add: msPerHour_def)
    have "workingHoursLoop tz currentDate endDate hours = toDouble (hours + toDouble ?T)"
      by (rule workingHoursLoop_same_day [OF True sd wd])
    then show ?thesis
      using roundedAdd_bounds [OF "0.prems"(4,5,6) T] by simp
  next
    case False
    with "0.prems"(2) have eq: "currentDate = endDate" by simp
    have l: "workingHoursLoop tz currentDate endDate hours = hours"
      using False by (rule workingHoursLoop_done)
    have "?a\<^sup>2 \<le> 1" using u(1,2) by (simp add: power_le_one)
    then have "?a\<^sup>2 * L \<le> 1 * L" using "0.prems"(4) by (rule mult_right_mono)
    then have lo: "?a\<^sup>2 * L \<le> hours" using "0.prems"(5) by simp
    have U0: "0 \<le> U" using "0.prems"(4,5,6) by simp
    have "1 \<le> ?b\<^sup>2" using u(3) by (simp add: one_le_power)
    then have "1 * U \<le> ?b\<^sup>2 * U" using U0 by (rule mult_right_mono)
    then have hi: "hours \<le> ?b\<^sup>2 * U" using "0.prems"(6) by simp
    show ?thesis unfolding l using lo hi by (simp add: eq)
  qed
next
  case (Suc k)
  let ?a = "1 - unitRoundoff" and ?b = "1 + unitRoundoff"
  note u = unitRoundoff_bounds
  let ?n = "dayStart tz (dayIndex tz currentDate + 1)"
  let ?q = "of_int (?n - currentDate) / of_int msPerHour :: rat"
  let ?T' = "of_int (endDate - ?n) / of_int msPerHour :: rat"
  let ?T = "of_int (endDate - currentDate) / of_int msPerHour :: rat"
  let ?h = "toDouble (hours + toDouble ?q)"
  have lt: "currentDate < ?n" by (rule dayStart_succ_gt)
  have "?n \<le> dayStart tz (dayIndex tz endDate)"
    using Suc.prems(1) by (intro dayStart_mono) simp
  also have "\<dots> \<le> endDate" by (rule dayStart_le)
  finally have nE: "?n \<le> endDate" .
  have wd: "getDay tz currentDate \<noteq> 0 \<and> getDay tz currentDate \<noteq> 6"
    using Suc.prems(1,3) by (simp add: getDay_def)
  have q: "0 \<le> ?q" using lt by (simp add: msPerHour_def)
  have T': "0 \<le> ?T'" using nE by (simp add: msPerHour_def)
  have T: "?T = ?q + ?T'"
    by (simp add: add_divide_distrib [symmetric] del: of_int_diff)
  have step: "workingHoursLoop tz currentDate endDate hours = workingHoursLoop tz ?n endDate ?h"
    using workingHoursLoop_full_day [OF nE, of hours] wd by (simp add: hoursAfterDay_def)
  note hb = roundedAdd_bounds [OF Suc.prems(4,5,6) q]
  have L': "0 \<le> ?a\<^sup>2 * (L + ?q)"
    using Suc.prems(4) q by simp
  have ih: "?a ^ (2 * (k + 1)) * (?a\<^sup>2 * (L + ?q) + ?T') \<le> workingHoursLoop tz ?n endDate ?h
          \<and> workingHoursLoop tz ?n endDate ?h \<le> ?b ^ (2 * (k + 1)) * (?b\<^sup>2 * (U + ?q) + ?T')"
  proof (rule Suc.IH [OF _ nE _ L' hb])
    show "dayIndex tz endDate = dayIndex tz ?n + int k" using Suc.prems(1) by simp
    show "\<forall>d. dayIndex tz ?n \<le> d \<and> d \<le> dayIndex tz endDate
           \<longrightarrow> weekDayOf d \<noteq> 0 \<and> weekDayOf d \<noteq> 6"
      using Suc.prems(3) by simp
  qed
  have pa: "?a ^ (2 * (Suc k + 1)) = ?a ^ (2 * (k + 1)) * ?a\<^sup>2"
    and pb: "?b ^ (2 * (Suc k + 1)) = ?b ^ (2 * (k + 1)) * ?b\<^sup>2"
    by (simp_all add: power_add [symmetric])
  have Lq: "0 \<le> L + ?q" using Suc.prems(4) q by simp
  have "?a\<^sup>2 * (L + ?q + ?T') \<le> ?a\<^sup>2 * (L + ?q) + ?T'"
    by (rule power_pair_le [OF u(1,2) Lq T'])
  then have "?a ^ (2 * (k + 1)) * (?a\<^sup>2 * (L + ?q + ?T'))
             \<le> ?a ^ (2 * (k + 1)) * (?a\<^sup>2 * (L + ?q) + ?T')"
    using u(1) by (intro mult_left_mono) simp_all
  then have lo: "?a ^ (2 * (Suc k + 1)) * (L + ?T) \<le> workingHoursLoop tz ?n endDate ?h"
    using ih unfolding pa T by (simp add: mult.assoc add.assoc)
  have "?b\<^sup>2 * (U + ?q) + ?T' \<le> ?b\<^sup>2 * (U + ?q + ?T')"
    by (rule power_pair_ge [OF u(3) T'])
  then have "?b ^ (2 * (k + 1)) * (?b\<^sup>2 * (U + ?q) + ?T')
             \<le> ?b ^ (2 * (k + 1)) * (?b\<^sup>2 * (U + ?q + ?T'))"
    using u(3) by (intro mult_left_mono) simp_all
  then have hi: "workingHoursLoop tz ?n endDate ?h \<le> ?b ^ (2 * (Suc k + 1)) * (U + ?T)"
    using ih unfolding pb T by (simp add: mult.assoc add.assoc)
  show ?case unfolding step using lo hi by simp
qed

section \<open>Properties of the duration calculator\<close>

lemma calculateWorkingHours_same_day:
  assumes "start \<le> endDate" and "dayIndex tz start = dayIndex tz endDate"
    and "weekDayOf (dayIndex tz start) \<noteq> 0" "weekDayOf (dayIndex tz start) \<noteq> 6"
  shows "calculateWorkingHours tz start endDate
         = toDouble (of_int (endDate - start) / of_int msPerHour)"
proof (cases "start < endDate")
  case True
  have q: "0 \<le> (of_int (endDate - start) / of_int msPerHour :: rat)"
    using True by (simp add: msPerHour_def)
  have "calculateWorkingHours tz start endDate
        = toDouble (0 + toDouble (of_int (endDate - start) / of_int msPerHour))"
    using workingHoursLoop_same_day [OF True assms(2,3,4), of 0] True
    by (simp add: calculateWorkingHours_def)
  then show ?thesis using toDouble_idem [OF q] by simp
next
  case False
  with assms(1) have "start = endDate" by simp
  then show ?thesis by (simp add: calculateWorkingHours_def workingHoursLoop_done)
qed

text \<open>
  Claim C3 says that over weekdays the result equals the exact wall-clock difference in
  hours. From Monday 2025-11-03 00:04 to Wednesday 2025-11-05 00:04 (UTC) the difference
  is 48 hours, a double; the loop adds the three daily periods 23.93..., 24 and 0.066...,
  each rounded, and returns 48.00000000000001.
\<close>

theorem calculateWorkingHours_exact_counterexample:
  "(1762128240000 :: int) \<le> 1762301040000
   \<and> dayIndex 0 1762128240000 = 20395 \<and> dayIndex 0 1762301040000 = 20397
   \<and> weekDayOf 20395 = 1 \<and> weekDayOf 20396 = 2 \<and> weekDayOf 20397 = 3
   \<and> of_int (1762301040000 - 1762128240000) / of_int msPerHour = (48 :: rat)
   \<and> toDouble 48 = 48
   \<and> calculateWorkingHours 0 1762128240000 1762301040000
       = 6755399441055745 / 140737488355328
   \<and> calculateWorkingHours 0 1762128240000 1762301040000
       \<noteq> of_int (1762301040000 - 1762128240000) / of_int msPerHour"
proof -
  have i: "dayIndex 0 1762128240000 = 20395" "dayIndex 0 1762301040000 = 20397"
    by (simp_all add: dayIndex_def msPerDay_def)
  have w: "weekDayOf 20395 = 1" "weekDayOf 20396 = 2" "weekDayOf 20397 = 3"
    by (simp_all add: weekDayOf_def)
  have e: "of_int (1762301040000 - 1762128240000) / of_int msPerHour = (48 :: rat)"
    by (simp add: msPerHour_def)
  have d: "toDouble 48 = 48" by code_simp
  have c: "calculateWorkingHours 0 1762128240000 1762301040000
       = 6755399441055745 / 140737488355328"
    by code_simp
  have n: "(6755399441055745 / 140737488355328 :: rat) \<noteq> 48" by simp
  from i w e d c n show ?thesis by simp
qed

text \<open>
  Claim C3 as amended. For all instants \<open>start \<le> end\<close> such that every calendar day from
  the day of \<open>start\<close> to the day of \<open>end\<close> is a weekday, \<open>calculateWorkingHours\<close> returns the
  wall-clock difference \<open>end - start\<close> in hours up to double rounding: when both instants
  fall on the same calendar day, it is the exact difference rounded once to a double (the
  value of \<^verbatim>\<open>(end - start) / 3600000\<close>); over \<open>n\<close> calendar days it lies between the exact
  difference times \<open>(1 - 2^-53)^(2n)\<close> and times \<open>(1 + 2^-53)^(2n)\<close>.
\<close>

theorem calculateWorkingHours_weekdays_rounded:
  assumes "start \<le> endDate"
    and "\<forall>d \<in> {dayIndex tz start .. dayIndex tz endDate}. weekDayOf d \<noteq> 0 \<and> weekDayOf d \<noteq> 6"
  shows "(dayIndex tz start = dayIndex tz endDate \<longrightarrow>
            calculateWorkingHours tz start endDate
              = toDouble (of_int (endDate - start) / of_int msPerHour))
       \<and> (1 - unitRoundoff) ^ (2 * (nat (dayIndex tz endDate - dayIndex tz start) + 1))
           * (of_int (endDate - start) / of_int msPerHour)
         \<le> calculateWorkingHours tz start endDate
       \<and> calculateWorkingHours tz start endDate
         \<le> (1 + unitRoundoff) ^ (2 * (nat (dayIndex tz endDate - dayIndex tz start) + 1))
           * (of_int (endDate - start) / of_int msPerHour)"
proof -
  have le: "dayIndex tz start \<le> dayIndex tz endDate"
    using assms(1) by (rule dayIndex_mono)
  have wd: "\<forall>d. dayIndex tz start \<le> d \<and> d \<le> dayIndex tz endDate
           \<longrightarrow> weekDayOf d \<noteq> 0 \<and> weekDayOf d \<noteq> 6"
    using assms(2) by simp
  have same: "dayIndex tz start = dayIndex tz endDate \<longrightarrow>
            calculateWorkingHours tz start endDate
              = toDouble (of_int (endDate - start) / of_int msPerHour)"
    using calculateWorkingHours_same_day [OF assms(1), of tz] wd le by simp
  have k: "dayIndex tz endDate
           = dayIndex tz start + int (nat (dayIndex tz endDate - dayIndex tz start))"
    using le by simp
  have c: "calculateWorkingHours tz start endDate = workingHoursLoop tz start endDate 0"
    using assms(1) by (simp add: calculateWorkingHours_def)
  from workingHoursLoop_bounds [OF k assms(1) wd, of 0 0 0] same
  show ?thesis unfolding c by simp
qed

text \<open>
  Instances: Monday 2025-11-03 09:00 to 15:00 (UTC) gives exactly 6 hours; Monday 00:04 to
  Wednesday 00:04 gives a value within the bounds for three days around 48.
\<close>

theorem calculateWorkingHours_weekdays_rounded_witness:
  "(1762160400000 :: int) \<le> 1762182000000
   \<and> dayIndex 0 1762160400000 = 20395 \<and> dayIndex 0 1762182000000 = 20395
   \<and> weekDayOf 20395 = 1 \<and> weekDayOf 20396 = 2 \<and> weekDayOf 20397 = 3
   \<and> calculateWorkingHours 0 1762160400000 1762182000000 = 6
   \<and> (1762128240000 :: int) \<le> 1762301040000
   \<and> dayIndex 0 1762128240000 = 20395 \<and> dayIndex 0 1762301040000 = 20397
   \<and> (1 - unitRoundoff) ^ 6 * 48 \<le> calculateWorkingHours 0 1762128240000 1762301040000
   \<and> calculateWorkingHours 0 1762128240000 1762301040000 \<le> (1 + unitRoundoff) ^ 6 * 48"
proof -
  have i: "dayIndex 0 1762160400000 = 20395" "dayIndex 0 1762182000000 = 20395"
    "dayIndex 0 1762128240000 = 20395" "dayIndex 0 1762301040000 = 20397"
    by (simp_all add: dayIndex_def msPerDay_def)
  have w: "weekDayOf 20395 = 1" "weekDayOf 20396 = 2" "weekDayOf 20397 = 3"
    by (simp_all add: weekDayOf_def)
  have s: "{20395 .. 20397} = {20395, 20396, 20397 :: int}" by auto
  have le1: "(1762160400000 :: int) \<le> 1762182000000"
    and le2: "(1762128240000 :: int) \<le> 1762301040000" by simp_all
  have wd1: "\<forall>d \<in> {dayIndex 0 1762160400000 .. dayIndex 0 1762182000000}.
               weekDayOf d \<noteq> 0 \<and> weekDayOf d \<noteq> 6"
    unfolding i using w by simp
  have wd2: "\<forall>d \<in> {dayIndex 0 1762128240000 .. dayIndex 0 1762301040000}.
               weekDayOf d \<noteq> 0 \<and> weekDayOf d \<noteq> 6"
    unfolding i s using w by simp
  have six: "toDouble 6 = 6" by code_simp
  from calculateWorkingHours_weekdays_rounded [OF le1 wd1]
  have a: "calculateWorkingHours 0 1762160400000 1762182000000 = 6"
    by (simp add: i msPerHour_def six)
  from calculateWorkingHours_weekdays_rounded [OF le2 wd2]
  have b: "(1 - unitRoundoff) ^ 6 * 48 \<le> calculateWorkingHours 0 1762128240000 1762301040000
         \<and> calculateWorkingHours 0 1762128240000 1762301040000 \<le> (1 + unitRoundoff) ^ 6 * 48"
    by (simp add: i msPerHour_def)
  from i w a b show ?thesis by simp
qed

text \<open>
  Claim C5. For every instant, \<open>getWeekStart\<close> returns a Monday, at local midnight, that
  is at most the given instant and later than the given instant minus seven days; the week
  start of a Sunday is the Monday six days before.
\<close>

theorem getWeekStart_monday:
  "getDay tz (getWeekStart tz d) = 1
   \<and> setHours0 tz (getWeekStart tz d) = getWeekStart tz d
   \<and> getWeekStart tz d \<le> d
   \<and> d - 7 * msPerDay < getWeekStart tz d
   \<and> (getDay tz d = 0 \<longrightarrow> dayIndex tz (getWeekStart tz d) = dayIndex tz d - 6)"
proof -
  define g where "g = getDay tz d"
  define k where "k = (if g = 0 then 6 else g - 1)"
  have g: "0 \<le> g" "g < 7" "g = (dayIndex tz d + 4) mod 7"
    by (simp_all add: g_def getDay_def weekDayOf_def)
  have k: "0 \<le> k" "k \<le> 6" using g by (auto simp: k_def)
  have w: "getWeekStart tz d = dayStart tz (dayIndex tz d - k)"
    by (simp add: getWeekStart_eq k_def g_def)
  have "(dayIndex tz d - k + 4) mod 7 = ((dayIndex tz d + 4) mod 7 - k) mod 7"
    by (simp add: mod_diff_left_eq algebra_simps)
  also have "\<dots> = (g - k) mod 7" using g(3) by simp
  also have "\<dots> = 1" using g(1,2) by (simp add: k_def)
  finally have "(dayIndex tz d - k + 4) mod 7 = 1" .
  then have c1: "getDay tz (getWeekStart tz d) = 1"
    by (simp add: w getDay_def weekDayOf_def)
  have c2: "setHours0 tz (getWeekStart tz d) = getWeekStart tz d"
    by (simp add: w setHours0_def dayStart_def)
  have "dayStart tz (dayIndex tz d - k) \<le> dayStart tz (dayIndex tz d)"
    using k by (intro dayStart_mono) simp
  then have c3: "getWeekStart tz d \<le> d"
    using dayStart_le [of tz d] by (simp add: w)
  have "d < dayStart tz (dayIndex tz d + 1)" by (rule dayStart_succ_gt)
  moreover have "dayStart tz (dayIndex tz d + 1) - 7 * msPerDay = dayStart tz (dayIndex tz d - 6)"
    by (simp add: dayStart_def algebra_simps)
  moreover have "dayStart tz (dayIndex tz d - 6) \<le> dayStart tz (dayIndex tz d - k)"
    using k by (intro dayStart_mono) simp
  ultimately have c4: "d - 7 * msPerDay < getWeekStart tz d"
    by (simp add: w)
  have c5: "getDay tz d = 0 \<longrightarrow> dayIndex tz (getWeekStart tz d) = dayIndex tz d - 6"
    by (simp add: w k_def g_def)
  from c1 c2 c3 c4 c5 show ?thesis by blast
qed

text \<open>An instance: Sunday 2025-11-09 00:00 (UTC) has the week start Monday 2025-11-03 00:00.\<close>

theorem getWeekStart_monday_witness:
  "getDay 0 1762646400000 = 0
   \<and> getDay 0 (getWeekStart 0 1762646400000) = 1
   \<and> dayIndex 0 (getWeekStart 0 1762646400000) = dayIndex 0 1762646400000 - 6
   \<and> getWeekStart 0 1762646400000 = 1762128000000"
proof -
  have i: "dayIndex 0 1762646400000 = 20401"
    by (simp add: dayIndex_def msPerDay_def)
  have g: "getDay 0 1762646400000 = 0"
    by (simp add: getDay_def i weekDayOf_def)
  have s: "getWeekStart 0 1762646400000 = 1762128000000"
    by (simp add: getWeekStart_eq g i dayStart_def msPerDay_def)
  show ?thesis
    using getWeekStart_monday [of 0 1762646400000] g s by simp
qed








section \<open>Properties of the aggregator\<close>

lemma toDouble_percent_values:
  "toDouble 1 = 1" "toDouble 100 = 100" "toDouble (1 / 2) = 1 / 2" "toDouble 50 = 50"
  by code_simp+

lemma percent_bounds:
  assumes "k \<le> n" "0 < n"
  shows "\<exists>r. jsTimes (jsDivide (of_nat k) (of_nat n)) 100 = Num r \<and> 0 \<le> r \<and> r \<le> 100"
proof -
  define q :: rat where "q = of_nat k / of_nat n"
  define x where "x = toDouble q"
  have q: "0 \<le> q" "q \<le> 1"
    using assms by (simp_all add: q_def divide_le_eq_1)
  have x: "0 \<le> x" "x \<le> 1"
    using toDouble_nonneg [OF q(1)] toDouble_mono [OF q] 
    by (simp_all add: x_def toDouble_percent_values)
  then have "0 \<le> x * 100" "x * 100 \<le> 100" by simp_all
  then have "0 \<le> toDouble (x * 100)" "toDouble (x * 100) \<le> 100"
    using toDouble_nonneg [of "x * 100"] toDouble_mono [of "x * 100" 100]
    by (simp_all add: toDouble_percent_values)
  moreover have "jsTimes (jsDivide (of_nat k) (of_nat n)) 100 = Num (toDouble (x * 100))"
    using assms(2) by (simp add: jsDivide_def x_def q_def)
  ultimately show ?thesis by blast
qed

lemma rate_bounds:
  "\<exists>r. (if length xs > 0
        then jsTimes (jsDivide (of_nat (length (filter P xs))) (of_nat (length xs))) 100
        else Num 0) = Num r \<and> 0 \<le> r \<and> r \<le> 100"
proof (cases "length xs > 0")
  case True
  then show ?thesis using percent_bounds [of "length (filter P xs)" "length xs"] by simp
next
  case False
  then show ?thesis by simp
qed

text \<open>
  Claim C7. For every list of records, the four percentages of \<open>calculateOverallMetrics\<close>
  (\<open>issueResponseRate\<close>, \<open>prResponseRate\<close> and the two one-day percentages) are finite
  numbers between 0 and 100, and each is exactly 0, not \<open>NaN\<close>, when its partition (the
  issues or the pull requests of the input) is empty.
\<close>

theorem calculateOverallMetrics_rates:
  "(\<exists>r. issueResponseRate (calculateOverallMetrics data) = Num r \<and> 0 \<le> r \<and> r \<le> 100)
   \<and> (\<exists>r. prResponseRate (calculateOverallMetrics data) = Num r \<and> 0 \<le> r \<and> r \<le> 100)
   \<and> (\<exists>r. issueOneDayPercentage (calculateOverallMetrics data) = Num r \<and> 0 \<le> r \<and> r \<le> 100)
   \<and> (\<exists>r. prOneDayPercentage (calculateOverallMetrics data) = Num r \<and> 0 \<le> r \<and> r \<le> 100)
   \<and> (filter (\<lambda>d. itype d = Issue) data = [] \<longrightarrow>
        issueResponseRate (calculateOverallMetrics data) = Num 0
        \<and> issueOneDayPercentage (calculateOverallMetrics data) = Num 0)
   \<and> (filter (\<lambda>d. itype d = Pr) data = [] \<longrightarrow>
        prResponseRate (calculateOverallMetrics data) = Num 0
        \<and> prOneDayPercentage (calculateOverallMetrics data) = Num 0)"
proof -
  let ?m = "calculateOverallMetrics data"
  have 1: "\<exists>r. issueResponseRate ?m = Num r \<and> 0 \<le> r \<and> r \<le> 100"
    unfolding calculateOverallMetrics_def Let_def by (simp only: OverallMetrics.simps rate_bounds)
  have 2: "\<exists>r. prResponseRate ?m = Num r \<and> 0 \<le> r \<and> r \<le> 100"
    unfolding calculateOverallMetrics_def Let_def by (simp only: OverallMetrics.simps rate_bounds)
  have 3: "\<exists>r. issueOneDayPercentage ?m = Num r \<and> 0 \<le> r \<and> r \<le> 100"
    unfolding calculateOverallMetrics_def Let_def by (simp only: OverallMetrics.simps rate_bounds)
  have 4: "\<exists>r. prOneDayPercentage ?m = Num r \<and> 0 \<le> r \<and> r \<le> 100"
    unfolding calculateOverallMetrics_def Let_def by (simp only: OverallMetrics.simps rate_bounds)
  have 5: "filter (\<lambda>d. itype d = Issue) data = [] \<longrightarrow>
        issueResponseRate ?m = Num 0 \<and> issueOneDayPercentage ?m = Num 0"
    by (simp add: calculateOverallMetrics_def Let_def)
  have 6: "filter (\<lambda>d. itype d = Pr) data = [] \<longrightarrow>
        prResponseRate ?m = Num 0 \<and> prOneDayPercentage ?m = Num 0"
    by (simp add: calculateOverallMetrics_def Let_def)
  from 1 2 3 4 5 6 show ?thesis by blast
qed

text \<open>Instances: the two issues of the sample world, one of them with a response within a
  day (no pull request: both pull-request percentages are 0), and the empty input.\<close>

theorem calculateOverallMetrics_rates_witness:
  "filter (\<lambda>d. itype d = Pr) (take 2 sampleData) = []
   \<and> prResponseRate (calculateOverallMetrics (take 2 sampleData)) = Num 0
   \<and> prOneDayPercentage (calculateOverallMetrics (take 2 sampleData)) = Num 0
   \<and> issueResponseRate (calculateOverallMetrics (take 2 sampleData)) = Num 50
   \<and> issueOneDayPercentage (calculateOverallMetrics (take 2 sampleData)) = Num 50
   \<and> filter (\<lambda>d. itype d = Issue) ([] :: IssueData list) = []
   \<and> issueResponseRate (calculateOverallMetrics []) = Num 0
   \<and> issueOneDayPercentage (calculateOverallMetrics []) = Num 0"
proof -
  have p: "filter (\<lambda>d. itype d = Pr) (take 2 sampleData) = []"
    by (simp add: sampleData_def)
  from calculateOverallMetrics_rates [of "take 2 sampleData"] p
  have a: "prResponseRate (calculateOverallMetrics (take 2 sampleData)) = Num 0
         \<and> prOneDayPercentage (calculateOverallMetrics (take 2 sampleData)) = Num 0"
    by blast
  have i: "filter (\<lambda>d. itype d = Issue) (take 2 sampleData) = take 2 sampleData"
    by (simp add: sampleData_def)
  have b: "issueResponseRate (calculateOverallMetrics (take 2 sampleData)) = Num 50"
    unfolding calculateOverallMetrics_def Let_def i
    by (simp add: sampleData_def jsDivide_def toDouble_percent_values)
  have c: "issueOneDayPercentage (calculateOverallMetrics (take 2 sampleData)) = Num 50"
    unfolding calculateOverallMetrics_def Let_def i
    by (simp add: sampleData_def jsDivide_def toDouble_percent_values)
  from calculateOverallMetrics_rates [of "[]"]
  have d: "issueResponseRate (calculateOverallMetrics []) = Num 0
        \<and> issueOneDayPercentage (calculateOverallMetrics []) = Num 0"
    by simp
  from p a b c d show ?thesis by simp
qed

lemma calculateStats_indices:
  assumes "responseTimes \<noteq> []"
  shows "0 < length (sort responseTimes)
         \<and> length (sort responseTimes) - 1 < length (sort responseTimes)
         \<and> length (sort responseTimes) div 2 < length (sort responseTimes)
         \<and> length (sort responseTimes) div 2 - 1 < length (sort responseTimes)"
  using assms by (cases responseTimes) auto

lemma sum_list_lower: "\<forall>x \<in> set xs. a \<le> x \<Longrightarrow> of_nat (length xs) * a \<le> sum_list (xs :: rat list)"
  by (induction xs) (auto simp: algebra_simps)

lemma sum_list_upper: "\<forall>x \<in> set xs. x \<le> b \<Longrightarrow> sum_list (xs :: rat list) \<le> of_nat (length xs) * b"
  by (induction xs) (auto simp: algebra_simps)

lemma sorted_bounds:
  assumes "sorted (ys :: rat list)" "i < length ys"
  shows "ys ! 0 \<le> ys ! i \<and> ys ! i \<le> ys ! (length ys - 1)"
  using assms by (auto intro: sorted_nth_mono)

text \<open>The rounded sum of \<^verbatim>\<open>reduce\<close> over numbers that are not negative, against the exact
  sum: one factor per addition.\<close>

lemma roundedSum_bounds:
  fixes xs :: "rat list"
  assumes "\<forall>x \<in> set xs. 0 \<le> x" "0 \<le> L" "L \<le> acc" "acc \<le> U"
  shows "(1 - unitRoundoff) ^ length xs * (L + sum_list xs)
           \<le> foldl (\<lambda>acc val. toDouble (acc + val)) acc xs
       \<and> foldl (\<lambda>acc val. toDouble (acc + val)) acc xs
           \<le> (1 + unitRoundoff) ^ length xs * (U + sum_list xs)"
  using assms
proof (induction xs arbitrary: acc L U)
  case Nil
  then show ?case by simp
next
  case (Cons x xs)
  let ?a = "1 - unitRoundoff" and ?b = "1 + unitRoundoff"
  let ?f = "\<lambda>acc val. toDouble (acc + val)"
  note u = unitRoundoff_bounds
  have b0: "0 \<le> ?b" using u(3) by simp
  have x: "0 \<le> x" and rest: "\<forall>y \<in> set xs. 0 \<le> y" using Cons.prems(1) by simp_all
  have s: "0 \<le> sum_list xs" using rest by (simp add: sum_list_nonneg)
  have acc0: "0 \<le> acc + x" using Cons.prems(2,3) x by simp
  have "?a * (L + x) \<le> ?a * (acc + x)"
    using Cons.prems(3) u(1) by (intro mult_left_mono) simp_all
  also have "\<dots> \<le> toDouble (acc + x)" by (rule toDouble_rel(1) [OF acc0])
  finally have lo: "?a * (L + x) \<le> toDouble (acc + x)" .
  have "toDouble (acc + x) \<le> ?b * (acc + x)" by (rule toDouble_rel(2) [OF acc0])
  also have "\<dots> \<le> ?b * (U + x)"
    using Cons.prems(4) b0 by (intro mult_left_mono) simp_all
  finally have hi: "toDouble (acc + x) \<le> ?b * (U + x)" .
  have L0: "0 \<le> ?a * (L + x)" using u(1) Cons.prems(2) x by simp
  from Cons.IH [OF rest L0 lo hi]
  have ih: "?a ^ length xs * (?a * (L + x) + sum_list xs) \<le> foldl ?f (toDouble (acc + x)) xs"
    "foldl ?f (toDouble (acc + x)) xs \<le> ?b ^ length xs * (?b * (U + x) + sum_list xs)"
    by simp_all
  have an: "0 \<le> ?a ^ length xs" using u(1) by simp
  have bn: "0 \<le> ?b ^ length xs" using b0 by simp
  have f: "foldl ?f acc (x # xs) = foldl ?f (toDouble (acc + x)) xs" by simp
  have "?a * sum_list xs \<le> 1 * sum_list xs" using u(2) s by (rule mult_right_mono)
  then have "?a * (L + x) + ?a * sum_list xs \<le> ?a * (L + x) + sum_list xs" by simp
  then have l1: "?a ^ length xs * (?a * (L + x) + ?a * sum_list xs)
             \<le> ?a ^ length xs * (?a * (L + x) + sum_list xs)"
    using an by (rule mult_left_mono)
  have "?a ^ length (x # xs) * (L + sum_list (x # xs))
                 = ?a ^ length xs * (?a * (L + x) + ?a * sum_list xs)"
    by (simp add: algebra_simps)
  also note l1
  also note ih(1)
  finally have 1: "?a ^ length (x # xs) * (L + sum_list (x # xs))
                      \<le> foldl ?f acc (x # xs)"
    unfolding f .
  have "1 * sum_list xs \<le> ?b * sum_list xs" using u(3) s by (rule mult_right_mono)
  then have "?b * (U + x) + sum_list xs \<le> ?b * (U + x) + ?b * sum_list xs" by simp
  then have l2: "?b ^ length xs * (?b * (U + x) + sum_list xs)
             \<le> ?b ^ length xs * (?b * (U + x) + ?b * sum_list xs)"
    using bn by (rule mult_left_mono)
  have e2: "?b ^ length xs * (?b * (U + x) + ?b * sum_list xs)
            = ?b ^ length (x # xs) * (U + sum_list (x # xs))"
    by (simp add: algebra_simps)
  note ih(2)
  also note l2
  also note e2
  finally have 2: "foldl ?f acc (x # xs) \<le> ?b ^ length (x # xs) * (U + sum_list (x # xs))"
    unfolding f .
  from 1 2 show ?case by simp
qed

text \<open>The rounded midpoint of two doubles lies between them.\<close>

lemma roundedMidpoint_bounds:
  assumes "0 \<le> a" "a \<le> b" "toDouble a = a" "toDouble b = b"
  shows "a \<le> toDouble (toDouble (a + b) / 2)" "toDouble (toDouble (a + b) / 2) \<le> b"
proof -
  have b0: "0 \<le> b" using assms(1,2) by simp
  have ab: "0 \<le> a + b" using assms(1) b0 by simp
  define s where "s = toDouble (a + b)"
  have s0: "0 \<le> s" using toDouble_nonneg [OF ab] by (simp add: s_def)
  have ss: "toDouble s = s" using toDouble_idem [OF ab] by (simp add: s_def)
  have "toDouble (2 * a) \<le> toDouble (a + b)"
    using assms(1,2) by (intro toDouble_mono) simp_all
  then have lo: "2 * a \<le> s"
    using toDouble_double [OF assms(1)] by (simp add: s_def assms(3))
  have "toDouble (a + b) \<le> toDouble (2 * b)"
    using assms(2) ab by (intro toDouble_mono) simp_all
  then have hi: "s \<le> 2 * b"
    using toDouble_double [OF b0] by (simp add: s_def assms(4))
  have "toDouble (s / 2) = s / 2" using toDouble_half [OF s0] by (simp add: ss)
  with lo hi show "a \<le> toDouble (toDouble (a + b) / 2)" "toDouble (toDouble (a + b) / 2) \<le> b"
    by (simp_all add: s_def)
qed

lemma calculateStats_bounds:
  assumes "responseTimes \<noteq> []"
    and dbl: "\<forall>x \<in> set responseTimes. 0 \<le> x \<and> toDouble x = x"
  shows "\<exists>mn mx me md.
           statsMin (calculateStats responseTimes) = Some mn
         \<and> statsMax (calculateStats responseTimes) = Some mx
         \<and> statsMean (calculateStats responseTimes) = Some me
         \<and> statsMedian (calculateStats responseTimes) = Some md
         \<and> mn \<le> md \<and> md \<le> mx
         \<and> (1 - unitRoundoff) ^ (length responseTimes + 1) * mn \<le> me
         \<and> me \<le> (1 + unitRoundoff) ^ (length responseTimes + 1) * mx"
proof -
  let ?a = "1 - unitRoundoff" and ?b = "1 + unitRoundoff"
  note u = unitRoundoff_bounds
  define ys where "ys = sort responseTimes"
  define n where "n = length ys"
  have n: "0 < n" using assms(1) by (simp add: n_def ys_def)
  have len: "length responseTimes = n" by (simp add: n_def ys_def)
  have srt: "sorted ys" by (simp add: ys_def)
  have dys: "\<forall>x \<in> set ys. 0 \<le> x \<and> toDouble x = x" using dbl by (simp add: ys_def)
  define mn where "mn = ys ! 0"
  define mx where "mx = ys ! (n - 1)"
  define sm where "sm = foldl (\<lambda>acc val. toDouble (acc + val)) 0 ys"
  define me where "me = toDouble (sm / of_nat n)"
  define md where "md = (if n mod 2 = 0
                          then toDouble (toDouble (ys ! (n div 2 - 1) + ys ! (n div 2)) / 2)
                          else ys ! (n div 2))"
  have b: "mn \<le> ys ! i \<and> ys ! i \<le> mx" if "i < n" for i
    using sorted_bounds [OF srt, of i] that by (simp add: mn_def mx_def n_def)
  have d: "0 \<le> ys ! i \<and> toDouble (ys ! i) = ys ! i" if "i < n" for i
    using dys that by (simp add: n_def)
  have all: "\<forall>x \<in> set ys. mn \<le> x \<and> x \<le> mx"
    using b by (auto simp: in_set_conv_nth n_def)
  have i1: "n div 2 < n" and i2: "n div 2 - 1 < n" using n by simp_all
  have mn0: "0 \<le> mn" using d [OF n] by (simp add: mn_def)
  have md: "mn \<le> md \<and> md \<le> mx"
  proof (cases "n mod 2 = 0")
    case False
    then show ?thesis using b [OF i1] by (simp add: md_def)
  next
    case True
    have le: "ys ! (n div 2 - 1) \<le> ys ! (n div 2)"
      using srt i1 by (intro sorted_nth_mono) (simp_all add: n_def)
    note m = roundedMidpoint_bounds [OF d [OF i2, THEN conjunct1] le
        d [OF i2, THEN conjunct2] d [OF i1, THEN conjunct2]]
    show ?thesis using True m b [OF i1] b [OF i2] by (simp add: md_def)
  qed
  have nn: "\<forall>x \<in> set ys. 0 \<le> x" using dys by simp
  have s0: "0 \<le> sum_list ys" using nn by (simp add: sum_list_nonneg)
  from roundedSum_bounds [OF nn, of 0 0 0]
  have sm: "?a ^ n * sum_list ys \<le> sm" "sm \<le> ?b ^ n * sum_list ys"
    by (simp_all add: sm_def n_def)
  have sums: "of_nat n * mn \<le> sum_list ys" "sum_list ys \<le> of_nat n * mx"
    using all sum_list_lower [of ys mn] sum_list_upper [of ys mx] by (simp_all add: n_def)
  have an: "0 \<le> ?a ^ n" using u(1) by simp
  have bn: "0 \<le> ?b ^ n" using u(3) by simp
  have sm0: "0 \<le> sm" using sm(1) an s0 by (meson mult_nonneg_nonneg order_trans)
  have q0: "0 \<le> sm / of_nat n" using sm0 by simp
  have "?a ^ n * (of_nat n * mn) \<le> ?a ^ n * sum_list ys"
    using sums(1) an by (rule mult_left_mono)
  with sm(1) have "?a ^ n * mn * of_nat n \<le> sm" by (simp add: mult_ac)
  then have "?a ^ n * mn \<le> sm / of_nat n"
    using n by (simp add: pos_le_divide_eq)
  then have "?a * (?a ^ n * mn) \<le> ?a * (sm / of_nat n)"
    using u(1) by (rule mult_left_mono)
  also have "\<dots> \<le> me" unfolding me_def by (rule toDouble_rel(1) [OF q0])
  finally have lo: "?a ^ (n + 1) * mn \<le> me" by (simp add: mult_ac)
  have "?b ^ n * sum_list ys \<le> ?b ^ n * (of_nat n * mx)"
    using sums(2) bn by (rule mult_left_mono)
  with sm(2) have "sm \<le> ?b ^ n * mx * of_nat n" by (simp add: mult_ac)
  then have q: "sm / of_nat n \<le> ?b ^ n * mx"
    using n by (simp add: pos_divide_le_eq)
  have "me \<le> ?b * (sm / of_nat n)" unfolding me_def by (rule toDouble_rel(2) [OF q0])
  also have "\<dots> \<le> ?b * (?b ^ n * mx)"
    using q u(3) by (intro mult_left_mono) simp_all
  finally have hi: "me \<le> ?b ^ (n + 1) * mx" by (simp add: mult_ac)
  have "calculateStats responseTimes =
        \<lparr>statsMin = Some mn, statsMax = Some mx, statsMean = Some me, statsMedian = Some md\<rparr>"
    using assms(1)
    by (simp add: calculateStats_def Let_def
          ys_def [symmetric] n_def [symmetric] sm_def [symmetric] mn_def mx_def me_def md_def)
  with md lo hi show ?thesis by (simp add: len)
qed

text \<open>
  Claim C10 says that for every non-empty list of response times \<open>calculateStats\<close> returns
  \<open>min \<le> mean \<le> max\<close>. For three response times 0.1 (the double nearest to 1/10) the
  rounded sum is 0.30000000000000004 and the mean 0.10000000000000002, above the maximum.
\<close>

theorem calculateStats_mean_counterexample:
  "toDouble (1 / 10) = 3602879701896397 / 36028797018963968
   \<and> [3602879701896397 / 36028797018963968, 3602879701896397 / 36028797018963968,
       3602879701896397 / 36028797018963968] \<noteq> ([] :: rat list)
   \<and> statsMax (calculateStats
        [3602879701896397 / 36028797018963968, 3602879701896397 / 36028797018963968,
         3602879701896397 / 36028797018963968])
       = Some (3602879701896397 / 36028797018963968)
   \<and> statsMean (calculateStats
        [3602879701896397 / 36028797018963968, 3602879701896397 / 36028797018963968,
         3602879701896397 / 36028797018963968])
       = Some (7205759403792795 / 72057594037927936)
   \<and> (3602879701896397 / 36028797018963968 :: rat) < 7205759403792795 / 72057594037927936"
proof -
  have 1: "toDouble (1 / 10) = 3602879701896397 / 36028797018963968" by code_simp
  have 2: "statsMax (calculateStats
        [3602879701896397 / 36028797018963968, 3602879701896397 / 36028797018963968,
         3602879701896397 / 36028797018963968])
       = Some (3602879701896397 / 36028797018963968)" by code_simp
  have 3: "statsMean (calculateStats
        [3602879701896397 / 36028797018963968, 3602879701896397 / 36028797018963968,
         3602879701896397 / 36028797018963968])
       = Some (7205759403792795 / 72057594037927936)" by code_simp
  have 4: "(3602879701896397 / 36028797018963968 :: rat) < 7205759403792795 / 72057594037927936"
    by simp
  from 1 2 3 4 show ?thesis by simp
qed

text \<open>
  Claim C10 as amended. When no record of the input has a response time (in particular for
  the empty input), the four statistics of \<open>calculateOverallMetrics\<close> are \<open>null\<close>. For every
  non-empty list of response times, which are doubles that are not negative (as
  \<open>calculateWorkingHours\<close> returns them, lemma \<open>calculateWorkingHours_double\<close>),
  \<open>calculateStats\<close> returns numbers with \<open>min \<le> median \<le> max\<close>, and the mean of \<open>n\<close>
  values lies between \<open>min\<close> and \<open>max\<close> up to the rounding of its \<open>n\<close> additions and one
  division: \<open>(1 - 2^-53)^(n+1) * min \<le> mean \<le> (1 + 2^-53)^(n+1) * max\<close>.
\<close>

theorem calculateStats_null_and_bounds:
  "((\<forall>d \<in> set data. responseTimeHours d = None) \<longrightarrow>
        minResponseTimeHours (calculateOverallMetrics data) = None
      \<and> maxResponseTimeHours (calculateOverallMetrics data) = None
      \<and> meanResponseTimeHours (calculateOverallMetrics data) = None
      \<and> medianResponseTimeHours (calculateOverallMetrics data) = None)
   \<and> (responseTimes \<noteq> [] \<and> (\<forall>x \<in> set responseTimes. 0 \<le> x \<and> toDouble x = x) \<longrightarrow>
        (\<exists>mn mx me md.
           statsMin (calculateStats responseTimes) = Some mn
         \<and> statsMax (calculateStats responseTimes) = Some mx
         \<and> statsMean (calculateStats responseTimes) = Some me
         \<and> statsMedian (calculateStats responseTimes) = Some md
         \<and> mn \<le> md \<and> md \<le> mx
         \<and> (1 - unitRoundoff) ^ (length responseTimes + 1) * mn \<le> me
         \<and> me \<le> (1 + unitRoundoff) ^ (length responseTimes + 1) * mx))"
proof (intro conjI impI)
  assume none: "\<forall>d \<in> set data. responseTimeHours d = None"
  then have st: "calculateStats
      (map (\<lambda>d. the (responseTimeHours d)) (filter (\<lambda>d. responseTimeHours d \<noteq> None) data))
      = \<lparr>statsMin = None, statsMax = None, statsMean = None, statsMedian = None\<rparr>"
    by (simp add: calculateStats_def filter_empty_conv)
  show "minResponseTimeHours (calculateOverallMetrics data) = None"
    unfolding calculateOverallMetrics_def Let_def st by simp
  show "maxResponseTimeHours (calculateOverallMetrics data) = None"
    unfolding calculateOverallMetrics_def Let_def st by simp
  show "meanResponseTimeHours (calculateOverallMetrics data) = None"
    unfolding calculateOverallMetrics_def Let_def st by simp
  show "medianResponseTimeHours (calculateOverallMetrics data) = None"
    unfolding calculateOverallMetrics_def Let_def st by simp
next
  assume "responseTimes \<noteq> [] \<and> (\<forall>x \<in> set responseTimes. 0 \<le> x \<and> toDouble x = x)"
  then show "\<exists>mn mx me md.
           statsMin (calculateStats responseTimes) = Some mn
         \<and> statsMax (calculateStats responseTimes) = Some mx
         \<and> statsMean (calculateStats responseTimes) = Some me
         \<and> statsMedian (calculateStats responseTimes) = Some md
         \<and> mn \<le> md \<and> md \<le> mx
         \<and> (1 - unitRoundoff) ^ (length responseTimes + 1) * mn \<le> me
         \<and> me \<le> (1 + unitRoundoff) ^ (length responseTimes + 1) * mx"
    using calculateStats_bounds by blast
qed

text \<open>Instances: the one record of the sample world without a response, the empty input,
  and the response times 4, 1, 3, 2 with minimum 1, maximum 4, mean and median 5/2.\<close>

theorem calculateStats_null_and_bounds_witness:
  "responseTimeHours (sampleData ! 1) = None
   \<and> minResponseTimeHours (calculateOverallMetrics [sampleData ! 1]) = None
   \<and> maxResponseTimeHours (calculateOverallMetrics [sampleData ! 1]) = None
   \<and> meanResponseTimeHours (calculateOverallMetrics [sampleData ! 1]) = None
   \<and> medianResponseTimeHours (calculateOverallMetrics [sampleData ! 1]) = None
   \<and> minResponseTimeHours (calculateOverallMetrics []) = None
   \<and> medianResponseTimeHours (calculateOverallMetrics []) = None
   \<and> [4, 1, 3, 2] \<noteq> ([] :: rat list)
   \<and> toDouble 4 = 4 \<and> toDouble 1 = 1 \<and> toDouble 3 = 3 \<and> toDouble 2 = 2
   \<and> statsMin (calculateStats [4, 1, 3, 2]) = Some 1
   \<and> statsMax (calculateStats [4, 1, 3, 2]) = Some 4
   \<and> statsMean (calculateStats [4, 1, 3, 2]) = Some (5 / 2)
   \<and> statsMedian (calculateStats [4, 1, 3, 2]) = Some (5 / 2)
   \<and> (1 :: rat) \<le> 5 / 2 \<and> (5 / 2 :: rat) \<le> 4
   \<and> (1 - unitRoundoff) ^ 5 * 1 \<le> 5 / 2 \<and> 5 / 2 \<le> (1 + unitRoundoff) ^ 5 * 4"
proof -
  have n: "responseTimeHours (sampleData ! 1) = None"
    by (simp add: sampleData_def)
  then have h: "\<forall>d \<in> set [sampleData ! 1]. responseTimeHours d = None"
    by simp
  from calculateStats_null_and_bounds [of "[sampleData ! 1]" "[]"] h
  have a: "minResponseTimeHours (calculateOverallMetrics [sampleData ! 1]) = None
   \<and> maxResponseTimeHours (calculateOverallMetrics [sampleData ! 1]) = None
   \<and> meanResponseTimeHours (calculateOverallMetrics [sampleData ! 1]) = None
   \<and> medianResponseTimeHours (calculateOverallMetrics [sampleData ! 1]) = None"
    by blast
  have e: "minResponseTimeHours (calculateOverallMetrics []) = None
   \<and> medianResponseTimeHours (calculateOverallMetrics []) = None"
    using calculateStats_null_and_bounds [of "[]" "[]"] by simp
  have t: "toDouble 4 = 4" "toDouble 1 = 1" "toDouble 3 = 3" "toDouble 2 = 2"
    by code_simp+
  have c: "statsMin (calculateStats [4, 1, 3, 2]) = Some 1"
    "statsMax (calculateStats [4, 1, 3, 2]) = Some 4"
    "statsMean (calculateStats [4, 1, 3, 2]) = Some (5 / 2)"
    "statsMedian (calculateStats [4, 1, 3, 2]) = Some (5 / 2)"
    by code_simp+
  have b: "\<exists>mn mx me md.
           statsMin (calculateStats [4, 1, 3, 2]) = Some mn
         \<and> statsMax (calculateStats [4, 1, 3, 2]) = Some mx
         \<and> statsMean (calculateStats [4, 1, 3, 2]) = Some me
         \<and> statsMedian (calculateStats [4, 1, 3, 2]) = Some md
         \<and> mn \<le> md \<and> md \<le> mx
         \<and> (1 - unitRoundoff) ^ (length [4, 1, 3, 2 :: rat] + 1) * mn \<le> me
         \<and> me \<le> (1 + unitRoundoff) ^ (length [4, 1, 3, 2 :: rat] + 1) * mx"
    using calculateStats_null_and_bounds [of "[]" "[4, 1, 3, 2]"] t by simp
  then obtain mn mx me md where
    o: "statsMin (calculateStats [4, 1, 3, 2]) = Some mn"
      "statsMax (calculateStats [4, 1, 3, 2]) = Some mx"
      "statsMean (calculateStats [4, 1, 3, 2]) = Some me"
      "statsMedian (calculateStats [4, 1, 3, 2]) = Some md"
      "mn \<le> md" "md \<le> mx"
      "(1 - unitRoundoff) ^ (length [4, 1, 3, 2 :: rat] + 1) * mn \<le> me"
      "me \<le> (1 + unitRoundoff) ^ (length [4, 1, 3, 2 :: rat] + 1) * mx"
    by blast
  from o(1,2,3,4) c have v: "mn = 1" "mx = 4" "me = 5 / 2" "md = 5 / 2" by simp_all
  have len: "length [4, 1, 3, 2 :: rat] + 1 = 5" by simp
  have r1: "(1 :: rat) \<le> 5 / 2" using o(5) unfolding v .
  have r2: "(5 / 2 :: rat) \<le> 4" using o(6) unfolding v .
  have r3: "(1 - unitRoundoff) ^ 5 * 1 \<le> 5 / 2" using o(7) unfolding v len .
  have r4: "5 / 2 \<le> (1 + unitRoundoff) ^ 5 * 4" using o(8) unfolding v len .
  note a1 = a [THEN conjunct1] and a2 = a [THEN conjunct2, THEN conjunct1]
    and a3 = a [THEN conjunct2, THEN conjunct2, THEN conjunct1]
    and a4 = a [THEN conjunct2, THEN conjunct2, THEN conjunct2]
    and e1 = e [THEN conjunct1] and e2 = e [THEN conjunct2]
  have ne: "[4, 1, 3, 2] \<noteq> ([] :: rat list)" by simp
  show ?thesis
    by (intro conjI; (rule n a1 a2 a3 a4 e1 e2 ne t c r1 r2 r3 r4))
qed

lemma weeklyStep_map_of:
  "map_of (weeklyStep m item) =
     (map_of m)(weekStarting item \<mapsto>
        \<lparr>total = total (entryOf m (weekStarting item)) + 1,
         withinOneDay = withinOneDay (entryOf m (weekStarting item))
                         + (if respondedWithinOneDay item then 1 else 0)\<rparr>)"
proof (cases "map_of m (weekStarting item)")
  case None
  then show ?thesis
    by (simp add: weeklyStep_def Let_def entryOf_def update_conv')
next
  case (Some a)
  then show ?thesis
    by (cases a) (simp add: weeklyStep_def Let_def entryOf_def update_conv')
qed

lemma weeklyStep_keys:
  "fst ` set (weeklyStep m item) = insert (weekStarting item) (fst ` set m)"
  by (cases "map_of m (weekStarting item)")
     (auto simp: weeklyStep_def Let_def update_conv' dom_update)

lemma weeklyStep_distinct:
  "distinct (map fst m) \<Longrightarrow> distinct (map fst (weeklyStep m item))"
  by (cases "map_of m (weekStarting item)")
     (simp_all add: weeklyStep_def Let_def update_conv' distinct_update)

lemma update_sum_absent:
  "map_of m k = None \<Longrightarrow>
   sum_list (map (\<lambda>e. total (snd e)) (AList.update k v m)) = sum_list (map (\<lambda>e. total (snd e)) m) + total v"
  by (induction m) (auto split: if_splits)

lemma update_sum_present:
  "map_of m k = Some d \<Longrightarrow>
   sum_list (map (\<lambda>e. total (snd e)) (AList.update k v m)) + total d
     = sum_list (map (\<lambda>e. total (snd e)) m) + total v"
  by (induction m) (auto split: if_splits)

lemma weeklyStep_sum:
  "sum_list (map (\<lambda>e. total (snd e)) (weeklyStep m item)) = sum_list (map (\<lambda>e. total (snd e)) m) + 1"
proof -
  let ?k = "weekStarting item"
  let ?z = "\<lparr>total = 0, withinOneDay = 0\<rparr>"
  let ?m1 = "if map_of m ?k = None then AList.update ?k ?z m else m"
  have s1: "sum_list (map (\<lambda>e. total (snd e)) ?m1) = sum_list (map (\<lambda>e. total (snd e)) m)"
    using update_sum_absent [of m ?k ?z] by simp
  obtain d where d: "map_of ?m1 ?k = Some d"
    by (cases "map_of m ?k") (simp_all add: update_conv')
  define d2 where "d2 = (if respondedWithinOneDay item
                          then d\<lparr>total := total d + 1, withinOneDay := withinOneDay d + 1\<rparr>
                          else d\<lparr>total := total d + 1\<rparr>)"
  have t: "total d2 = total d + 1" by (simp add: d2_def)
  have "weeklyStep m item = AList.update ?k d2 ?m1"
    using d by (simp add: weeklyStep_def Let_def d2_def)
  moreover have "sum_list (map (\<lambda>e. total (snd e)) (AList.update ?k d2 ?m1)) + total d
        = sum_list (map (\<lambda>e. total (snd e)) ?m1) + total d2"
    by (rule update_sum_present [OF d])
  ultimately show ?thesis using s1 t by simp
qed

lemma foldl_weeklyStep_keys:
  "fst ` set (foldl weeklyStep m data) = fst ` set m \<union> weekStarting ` set data"
  by (induction data arbitrary: m) (auto simp: weeklyStep_keys)

lemma foldl_weeklyStep_distinct:
  "distinct (map fst m) \<Longrightarrow> distinct (map fst (foldl weeklyStep m data))"
  by (induction data arbitrary: m) (simp_all add: weeklyStep_distinct)

lemma foldl_weeklyStep_sum:
  "sum_list (map (\<lambda>e. total (snd e)) (foldl weeklyStep m data))
     = sum_list (map (\<lambda>e. total (snd e)) m) + length data"
  by (induction data arbitrary: m) (simp_all add: weeklyStep_sum)

lemma entryOf_weeklyStep:
  "entryOf (weeklyStep m item) k =
     (if weekStarting item = k
      then \<lparr>total = total (entryOf m k) + 1,
            withinOneDay = withinOneDay (entryOf m k) + (if respondedWithinOneDay item then 1 else 0)\<rparr>
      else entryOf m k)"
  by (simp add: entryOf_def [of "weeklyStep m item"] weeklyStep_map_of) (simp add: entryOf_def)

lemma foldl_weeklyStep_entry:
  "total (entryOf (foldl weeklyStep m data) k)
     = total (entryOf m k) + length (filter (\<lambda>d. weekStarting d = k) data)
   \<and> withinOneDay (entryOf (foldl weeklyStep m data) k)
     = withinOneDay (entryOf m k)
       + length (filter (\<lambda>d. weekStarting d = k \<and> respondedWithinOneDay d) data)"
  by (induction data arbitrary: m) (simp_all add: entryOf_weeklyStep)

lemma sum_list_insort_key:
  "sum_list (map f (insort_key g x xs)) = f x + sum_list (map f xs :: nat list)"
  by (induction xs) simp_all

lemma sum_list_sort_key:
  "sum_list (map f (sort_key g xs)) = sum_list (map f xs :: nat list)"
  by (induction xs) (simp_all add: sum_list_insort_key)

lemma distinct_map_sort_key:
  "distinct (map f (sort_key f xs)) = distinct (map f xs)"
  by (simp add: distinct_map)

text \<open>
  Claim C8. \<open>calculateWeeklySummary\<close> groups the records by their week start: the week
  starts of its output are ascending and pairwise distinct and are exactly the week starts
  of the input; every summary counts the records of its week (all of them, and those
  responded within one day) and has at least one; and the totals add up to the number of
  input records, so every record is counted in exactly one bucket.
\<close>

theorem calculateWeeklySummary_buckets:
  "sorted (map wsWeekStarting (calculateWeeklySummary data))
   \<and> distinct (map wsWeekStarting (calculateWeeklySummary data))
   \<and> set (map wsWeekStarting (calculateWeeklySummary data)) = weekStarting ` set data
   \<and> (\<forall>s \<in> set (calculateWeeklySummary data).
         wsTotalIssues s = length (filter (\<lambda>d. weekStarting d = wsWeekStarting s) data)
       \<and> wsRespondedWithinOneDay s
           = length (filter (\<lambda>d. weekStarting d = wsWeekStarting s \<and> respondedWithinOneDay d) data)
       \<and> 0 < wsTotalIssues s)
   \<and> sum_list (map wsTotalIssues (calculateWeeklySummary data)) = length data"
proof -
  define M where "M = foldl weeklyStep [] data"
  have out: "calculateWeeklySummary data = sort_key wsWeekStarting (map toSummary M)"
    by (simp add: calculateWeeklySummary_def M_def)
  have keys: "map wsWeekStarting (map toSummary M) = map fst M"
    by (simp add: toSummary_def split_def)
  have dist: "distinct (map fst M)"
    unfolding M_def by (rule foldl_weeklyStep_distinct) simp
  have dom: "fst ` set M = weekStarting ` set data"
    using foldl_weeklyStep_keys [of "[]" data] by (simp add: M_def)
  have c1: "sorted (map wsWeekStarting (calculateWeeklySummary data))"
    by (simp add: out)
  have c2: "distinct (map wsWeekStarting (calculateWeeklySummary data))"
    unfolding out distinct_map_sort_key keys by (rule dist)
  have "set (map wsWeekStarting (calculateWeeklySummary data)) = set (map wsWeekStarting (map toSummary M))"
    by (simp add: out image_image)
  then have c3: "set (map wsWeekStarting (calculateWeeklySummary data)) = weekStarting ` set data"
    unfolding keys using dom by simp
  have c4: "\<forall>s \<in> set (calculateWeeklySummary data).
         wsTotalIssues s = length (filter (\<lambda>d. weekStarting d = wsWeekStarting s) data)
       \<and> wsRespondedWithinOneDay s
           = length (filter (\<lambda>d. weekStarting d = wsWeekStarting s \<and> respondedWithinOneDay d) data)
       \<and> 0 < wsTotalIssues s"
  proof
    fix s assume "s \<in> set (calculateWeeklySummary data)"
    then obtain k d where kd: "(k, d) \<in> set M" and s: "s = toSummary (k, d)"
      by (auto simp: out)
    from kd dist have "map_of M k = Some d" by simp
    then have e: "entryOf M k = d" by (simp add: entryOf_def)
    have cnt: "total d = length (filter (\<lambda>d. weekStarting d = k) data)"
      "withinOneDay d = length (filter (\<lambda>d. weekStarting d = k \<and> respondedWithinOneDay d) data)"
      using foldl_weeklyStep_entry [of "[]" data k] e by (simp_all add: M_def entryOf_def)
    from kd dom have "k \<in> weekStarting ` set data" by force
    then have "filter (\<lambda>d. weekStarting d = k) data \<noteq> []"
      by (auto simp: filter_empty_conv)
    then have "0 < total d" using cnt(1) by simp
    then show "wsTotalIssues s = length (filter (\<lambda>d. weekStarting d = wsWeekStarting s) data)
       \<and> wsRespondedWithinOneDay s
           = length (filter (\<lambda>d. weekStarting d = wsWeekStarting s \<and> respondedWithinOneDay d) data)
       \<and> 0 < wsTotalIssues s"
      using cnt by (simp add: s toSummary_def)
  qed
  have "sum_list (map wsTotalIssues (calculateWeeklySummary data))
        = sum_list (map wsTotalIssues (map toSummary M))"
    unfolding out by (rule sum_list_sort_key)
  also have "\<dots> = sum_list (map (\<lambda>e. total (snd e)) M)"
    by (simp add: toSummary_def split_def comp_def)
  also have "\<dots> = length data"
    using foldl_weeklyStep_sum [of "[]" data] by (simp add: M_def)
  finally have c5: "sum_list (map wsTotalIssues (calculateWeeklySummary data)) = length data" .
  from c1 c2 c3 c4 c5 show ?thesis by blast
qed

lemma sample_weeks:
  "getWeekStart 0 1762862400000 = 1762732800000"
  "getWeekStart 0 1762160400000 = 1762128000000"
  "getWeekStart 0 1762534800000 = 1762128000000"
  by (simp_all add: getWeekStart_eq getDay_def dayIndex_def weekDayOf_def dayStart_def msPerDay_def)

lemma sample_summary:
  "calculateWeeklySummary
     [sampleRecord Issue 1762862400000 None,
      sampleRecord Issue 1762160400000 (Some (1762182000000, 6)),
      sampleRecord Pr 1762534800000 (Some (1762768800000, 17))]
   = [\<lparr>wsWeekStarting = 1762128000000, wsTotalIssues = 2, wsRespondedWithinOneDay = 2,
        wsPercentage = Num 100\<rparr>,
      \<lparr>wsWeekStarting = 1762732800000, wsTotalIssues = 1, wsRespondedWithinOneDay = 0,
        wsPercentage = Num 0\<rparr>]"
  by (simp add: calculateWeeklySummary_def weeklyStep_def sampleRecord_def sample_weeks
        toSummary_def jsDivide_def Let_def toDouble_percent_values)

text \<open>An instance with three records in two weeks (lemma \<open>sample_summary\<close>).\<close>

theorem calculateWeeklySummary_buckets_witness:
  "calculateWeeklySummary
     [sampleRecord Issue 1762862400000 None,
      sampleRecord Issue 1762160400000 (Some (1762182000000, 6)),
      sampleRecord Pr 1762534800000 (Some (1762768800000, 17))]
   = [\<lparr>wsWeekStarting = 1762128000000, wsTotalIssues = 2, wsRespondedWithinOneDay = 2,
        wsPercentage = Num 100\<rparr>,
      \<lparr>wsWeekStarting = 1762732800000, wsTotalIssues = 1, wsRespondedWithinOneDay = 0,
        wsPercentage = Num 0\<rparr>]
   \<and> length (filter (\<lambda>d. weekStarting d = 1762128000000)
        [sampleRecord Issue 1762862400000 None,
         sampleRecord Issue 1762160400000 (Some (1762182000000, 6)),
         sampleRecord Pr 1762534800000 (Some (1762768800000, 17))]) = 2
   \<and> sum_list (map wsTotalIssues (calculateWeeklySummary
        [sampleRecord Issue 1762862400000 None,
         sampleRecord Issue 1762160400000 (Some (1762182000000, 6)),
         sampleRecord Pr 1762534800000 (Some (1762768800000, 17))])) = 3"
proof -
  let ?data = "[sampleRecord Issue 1762862400000 None,
      sampleRecord Issue 1762160400000 (Some (1762182000000, 6)),
      sampleRecord Pr 1762534800000 (Some (1762768800000, 17))]"
  let ?s = "\<lparr>wsWeekStarting = 1762128000000, wsTotalIssues = 2, wsRespondedWithinOneDay = 2,
        wsPercentage = Num 100\<rparr>"
  note facts = calculateWeeklySummary_buckets [of ?data]
  have mem: "?s \<in> set (calculateWeeklySummary ?data)"
    by (simp only: sample_summary list.set insertI1)
  from facts mem
  have "wsTotalIssues ?s = length (filter (\<lambda>d. weekStarting d = wsWeekStarting ?s) ?data)"
    by blast
  then have a: "length (filter (\<lambda>d. weekStarting d = 1762128000000) ?data) = 2"
    by simp
  from facts have b: "sum_list (map wsTotalIssues (calculateWeeklySummary ?data)) = 3"
    by simp
  from a b sample_summary show ?thesis by simp
qed

section \<open>The run in the sample world\<close>

lemma sampleAnalytics_built:
  "fetchOrgMembers sampleApi \<lparr>organization = ''acme'', orgMembers = {}, excludedUsers = {}\<rparr>
     = Inr \<lparr>organization = ''acme'', orgMembers = {''alice'', ''bob''}, excludedUsers = {}\<rparr>"
  "buildExcludeList sampleApi
     \<lparr>organization = ''acme'', orgMembers = {''alice'', ''bob''}, excludedUsers = {}\<rparr>
     [''core''] [''dependabot[bot]''] = sampleAnalytics"
  by (simp_all add: fetchOrgMembers_def buildExcludeList_def addTeam_def sampleApi_def
        sampleAnalytics_def insert_commute)

lemma sample_hours:
  "calculateWorkingHours 0 1762160400000 1762182000000 = 6"
  "calculateWorkingHours 0 1762534800000 1762768800000 = 17"
  by code_simp+

lemma sample_first_responses:
  "findFirstOrgResponse sampleApi sampleAnalytics ''app'' 1 Issue None
     = Some \<lparr>respondedAt = 1762182000000, respondedBy = ''alice''\<rparr>"
  "findFirstOrgResponse sampleApi sampleAnalytics ''app'' 3 Issue None = None"
  "findFirstOrgResponse sampleApi sampleAnalytics ''app'' 4 Pr
     (Some \<lparr>mergedAt = Some 1762768800000, mergedBy = Some ''bob''\<rparr>)
     = Some \<lparr>respondedAt = 1762768800000, respondedBy = ''bob''\<rparr>"
  by (simp_all add: findFirstOrgResponse_def sampleApi_def sampleAnalytics_def isOrgMember_def
        mergeResponses_def earliestResponse_def)

lemma sample_fetchIssues:
  "fetchIssues sampleApi sampleAnalytics 0 ''app'' s e = Inr (take 2 sampleData)"
proof -
  have a: "searchIssuesAndPullRequests sampleApi (organization sampleAnalytics) ''app'' Issue s e
           = Inr sampleIssues"
    by (simp add: sampleApi_def)
  have ex: "\<not> isExcludedUser sampleAnalytics ''carol''" "isExcludedUser sampleAnalytics ''alice''"
    "\<not> isExcludedUser sampleAnalytics ''dave''"
    by (simp_all add: isExcludedUser_def sampleAnalytics_def)
  show ?thesis
    unfolding fetchIssues_def a
    by (simp add: sampleIssues_def authorOf_def ex sample_first_responses
          sample_first_responses [unfolded One_nat_def] assemble_def Let_def
          sample_hours isWithinOneWorkingDay_def orNull_def sample_weeks sampleData_def)
qed

lemma sample_fetchPullRequests:
  "fetchPullRequests sampleApi sampleAnalytics 0 ''app'' s e = Inr (drop 2 sampleData)"
proof -
  have a: "searchIssuesAndPullRequests sampleApi (organization sampleAnalytics) ''app'' Pr s e
           = Inr samplePulls"
    by (simp add: sampleApi_def)
  have ex: "\<not> isExcludedUser sampleAnalytics ''erin''"
    by (simp add: isExcludedUser_def sampleAnalytics_def)
  have g: "pullsGet sampleApi (organization sampleAnalytics) ''app'' 4
           = Inr \<lparr>mergedAt = Some 1762768800000, mergedBy = Some ''bob''\<rparr>"
    by (simp add: sampleApi_def)
  have p: "processPullRequest sampleApi sampleAnalytics 0 ''app'' (hd samplePulls)
           = Inr (Some (sampleData ! 2))"
    by (simp add: processPullRequest_def samplePulls_def authorOf_def ex g sample_first_responses
          assemble_def Let_def sample_hours isWithinOneWorkingDay_def orNull_def sample_weeks
          sampleData_def)
  have b: "batchLoop sampleApi sampleAnalytics 0 ''app'' samplePulls 0 [] = Inr (drop 2 sampleData)"
    apply (subst batchLoop.simps)
    apply (subst batchLoop.simps)
    using p by (simp add: samplePulls_def BATCH_SIZE_def sampleData_def)
  show ?thesis
    unfolding fetchPullRequests_def a using b by (simp add: samplePulls_def)
qed

lemma sample_fetchAllData:
  "fetchAllData sampleApi sampleAnalytics 0 [''app''] s e = Inr sampleData"
  by (simp add: fetchAllData_def sample_fetchIssues sample_fetchPullRequests sampleData_def)

lemma sample_main:
  "main sampleApi sampleConfig 0 s e
     = Finished sampleData (calculateOverallMetrics sampleData) (calculateWeeklySummary sampleData)"
proof -
  have l: "length sampleData \<noteq> 0" by (simp add: sampleData_def)
  show ?thesis
    using l
    by (simp add: main_def sampleConfig_def sampleAnalytics_built sample_fetchAllData)
qed

section \<open>Properties of the item processor\<close>

lemma assemble_invariant: "recordInvariant tz (assemble tz repo item ty firstResponse)"
  by (cases firstResponse)
     (simp_all add: recordInvariant_def assemble_def Let_def isWithinOneWorkingDay_def)

lemma issuesLoop_invariant:
  "\<forall>d \<in> set (issuesLoop api this tz repo items). recordInvariant tz d"
  by (induction items) (simp_all add: assemble_invariant)

lemma processPullRequest_invariant:
  "processPullRequest api this tz repo pr = Inr (Some d) \<Longrightarrow> recordInvariant tz d"
  by (auto simp: processPullRequest_def assemble_invariant split: if_splits sum.splits)

lemma promiseAll_values:
  "promiseAll ps = Inr vs \<Longrightarrow> \<forall>v \<in> set vs. Inr v \<in> set ps"
proof (induction ps arbitrary: vs)
  case Nil
  then show ?case by simp
next
  case (Cons p ps)
  then show ?case
    by (cases p) (auto split: sum.splits)
qed

lemma batchLoop_invariant:
  "\<forall>d \<in> set prs. recordInvariant tz d \<Longrightarrow>
   batchLoop api this tz repo pullRequests i prs = Inr out \<Longrightarrow>
   \<forall>d \<in> set out. recordInvariant tz d"
proof (induction api this tz repo pullRequests i prs rule: batchLoop.induct)
  case (1 api this tz repo pullRequests i prs)
  show ?case
  proof (cases "i < length pullRequests")
    case False
    with "1.prems" show ?thesis by (simp add: batchLoop.simps)
  next
    case True
    let ?batch = "take BATCH_SIZE (drop i pullRequests)"
    from True "1.prems"(2) obtain results where
      r: "promiseAll (map (processPullRequest api this tz repo) ?batch) = Inr results"
      and rest: "batchLoop api this tz repo pullRequests (i + BATCH_SIZE)
                   (prs @ map the (filter (\<lambda>pr. pr \<noteq> None) results)) = Inr out"
      by (subst (asm) batchLoop.simps) (auto simp: Let_def split: sum.splits)
    have "\<forall>d \<in> set (map the (filter (\<lambda>pr. pr \<noteq> None) results)). recordInvariant tz d"
    proof
      fix d assume "d \<in> set (map the (filter (\<lambda>pr. pr \<noteq> None) results))"
      then have "Some d \<in> set results" by auto
      with promiseAll_values [OF r]
      have "Inr (Some d) \<in> set (map (processPullRequest api this tz repo) ?batch)" by blast
      then obtain pr where "processPullRequest api this tz repo pr = Inr (Some d)" by auto
      then show "recordInvariant tz d" by (rule processPullRequest_invariant)
    qed
    with "1.prems"(1)
    have "\<forall>d \<in> set (prs @ map the (filter (\<lambda>pr. pr \<noteq> None) results)). recordInvariant tz d"
      by auto
    then show ?thesis
      using "1.IH" [OF True refl r _ rest] by blast
  qed
qed

lemma fetchAllLoop_invariant:
  "\<forall>d \<in> set allData. recordInvariant tz d \<Longrightarrow>
   fetchAllLoop api this tz repos startDate endDate allData = Inr data \<Longrightarrow>
   \<forall>d \<in> set data. recordInvariant tz d"
proof (induction repos arbitrary: allData)
  case Nil
  then show ?case by simp
next
  case (Cons repo rest)
  from Cons.prems(2) obtain issues prs where
    i: "fetchIssues api this tz repo startDate endDate = Inr issues"
    and p: "fetchPullRequests api this tz repo startDate endDate = Inr prs"
    and r: "fetchAllLoop api this tz rest startDate endDate (allData @ issues @ prs) = Inr data"
    by (auto split: sum.splits)
  from i have "\<forall>d \<in> set issues. recordInvariant tz d"
    by (auto simp: fetchIssues_def issuesLoop_invariant split: sum.splits)
  moreover from p have "\<forall>d \<in> set prs. recordInvariant tz d"
    by (auto simp: fetchPullRequests_def Let_def split: sum.splits
             dest!: batchLoop_invariant [rotated])
  ultimately have "\<forall>d \<in> set (allData @ issues @ prs). recordInvariant tz d"
    using Cons.prems(1) by auto
  then show ?case using Cons.IH r by blast
qed

text \<open>
  Claim C1. For every record of the list that \<open>fetchAllData\<close> produces (issues and pull
  requests of all repositories): \<open>respondedWithinOneDay\<close> is true if and only if a first
  response was resolved (\<open>firstResponseAt\<close> is not null) and the computed working hours
  are at most 24; \<open>responseTimeHours\<close> is null if and only if \<open>firstResponseAt\<close> is null;
  and the hours are those of \<open>calculateWorkingHours\<close> from the creation to the response.
\<close>

theorem fetchAllData_record_invariant:
  assumes "fetchAllData api this tz repos startDate endDate = Inr data"
  shows "\<forall>d \<in> set data.
           (respondedWithinOneDay d \<longleftrightarrow>
              (\<exists>t h. firstResponseAt d = Some t \<and> responseTimeHours d = Some h \<and> h \<le> 24))
         \<and> (responseTimeHours d = None \<longleftrightarrow> firstResponseAt d = None)
         \<and> (\<forall>t. firstResponseAt d = Some t \<longrightarrow>
                responseTimeHours d = Some (calculateWorkingHours tz (createdAt d) t))"
  using fetchAllLoop_invariant [of "[]" tz api this repos startDate endDate data] assms
  by (simp add: fetchAllData_def recordInvariant_def)

text \<open>An instance: the records of the sample world, the first with a response after
  six working hours, the second without a response.\<close>

theorem fetchAllData_record_invariant_witness:
  "fetchAllData sampleApi sampleAnalytics 0 [''app''] 0 0 = Inr sampleData
   \<and> sampleData ! 0 \<in> set sampleData
   \<and> respondedWithinOneDay (sampleData ! 0)
   \<and> firstResponseAt (sampleData ! 0) = Some 1762182000000
   \<and> responseTimeHours (sampleData ! 0)
       = Some (calculateWorkingHours 0 (createdAt (sampleData ! 0)) 1762182000000)
   \<and> sampleData ! 1 \<in> set sampleData
   \<and> \<not> respondedWithinOneDay (sampleData ! 1)
   \<and> firstResponseAt (sampleData ! 1) = None
   \<and> responseTimeHours (sampleData ! 1) = None"
proof -
  have run: "fetchAllData sampleApi sampleAnalytics 0 [''app''] 0 0 = Inr sampleData"
    by (rule sample_fetchAllData)
  note inv = fetchAllData_record_invariant [OF run]
  have m0: "sampleData ! 0 \<in> set sampleData" and m1: "sampleData ! 1 \<in> set sampleData"
    by (simp_all add: sampleData_def)
  have f0: "firstResponseAt (sampleData ! 0) = Some 1762182000000"
    and f1: "firstResponseAt (sampleData ! 1) = None"
    by (simp_all add: sampleData_def)
  from inv m0 f0 have a: "responseTimeHours (sampleData ! 0)
       = Some (calculateWorkingHours 0 (createdAt (sampleData ! 0)) 1762182000000)"
    by blast
  from inv m1 f1 have b: "responseTimeHours (sampleData ! 1) = None"
    by blast
  from inv m1 f1 have c: "\<not> respondedWithinOneDay (sampleData ! 1)"
    by auto
  have d: "respondedWithinOneDay (sampleData ! 0)"
    by (simp add: sampleData_def)
  from run m0 m1 f0 f1 a b c d show ?thesis by blast
qed

section \<open>Properties of the response locator\<close>

lemma commentResponses_events:
  "eventPair ` set (commentResponses this cs) =
     {(commentCreatedAt c, a) | c a.
        c \<in> set cs \<and> commentUser c = Some a \<and> a \<noteq> [] \<and> isOrgMember this a}"
proof (induction cs)
  case Nil
  then show ?case by simp
next
  case (Cons c cs)
  show ?case
  proof (cases "commentUser c")
    case None
    then show ?thesis using Cons.IH by auto
  next
    case (Some a)
    then show ?thesis using Cons.IH by (auto simp: eventPair_def)
  qed
qed

lemma reviewResponses_events:
  "eventPair ` set (reviewResponses this rs) =
     {(t, a) | r t a.
        r \<in> set rs \<and> reviewUser r = Some a \<and> submittedAt r = Some t
        \<and> a \<noteq> [] \<and> isOrgMember this a}"
proof (induction rs)
  case Nil
  then show ?case by simp
next
  case (Cons r rs)
  show ?case
  proof (cases "reviewUser r")
    case None
    then show ?thesis using Cons.IH by auto
  next
    case a: (Some a)
    show ?thesis
    proof (cases "submittedAt r")
      case None
      then show ?thesis using a Cons.IH by auto
    next
      case (Some t)
      then show ?thesis using a Cons.IH by (auto simp: eventPair_def)
    qed
  qed
qed

lemma mergeResponses_events:
  "eventPair ` set (mergeResponses this prDetails) =
     {(t, a) | d t a.
        prDetails = Some d \<and> mergedAt d = Some t \<and> mergedBy d = Some a
        \<and> a \<noteq> [] \<and> isOrgMember this a}"
  by (auto simp: mergeResponses_def eventPair_def split: option.splits)

text \<open>When no organisation member among the authors is in the exclusion set, the responses
  that the code collects are the qualifying events that organisation members authored.\<close>

lemma allResponses_events:
  assumes "\<forall>a \<in> eventAuthors comments reviewComments reviews prDetails.
             a \<in> orgMembers this \<longrightarrow> a \<notin> excludedUsers this"
  shows "eventPair ` set (commentResponses this comments @ commentResponses this reviewComments
                    @ reviewResponses this reviews @ mergeResponses this prDetails)
   = {q \<in> qualifyingEvents this comments reviewComments reviews prDetails.
        snd q \<noteq> [] \<and> snd q \<in> orgMembers this}"
  (is "?L = ?R")
proof -
  have L: "?L =
     {(commentCreatedAt c, a) | c a.
        c \<in> set comments \<and> commentUser c = Some a \<and> a \<noteq> [] \<and> isOrgMember this a}
     \<union> {(commentCreatedAt c, a) | c a.
        c \<in> set reviewComments \<and> commentUser c = Some a \<and> a \<noteq> [] \<and> isOrgMember this a}
     \<union> {(t, a) | r t a.
        r \<in> set reviews \<and> reviewUser r = Some a \<and> submittedAt r = Some t
        \<and> a \<noteq> [] \<and> isOrgMember this a}
     \<union> {(t, a) | d t a.
        prDetails = Some d \<and> mergedAt d = Some t \<and> mergedBy d = Some a
        \<and> a \<noteq> [] \<and> isOrgMember this a}"
    unfolding set_append image_Un
      commentResponses_events reviewResponses_events mergeResponses_events
    by (simp add: Un_assoc)
  have ok: "a \<notin> excludedUsers this"
    if "a \<in> eventAuthors comments reviewComments reviews prDetails" "a \<in> orgMembers this"
    for a using assms that by blast
  have sub: "?L \<subseteq> ?R"
  proof
    fix q assume "q \<in> ?L"
    then consider
      (c) c a where "q = (commentCreatedAt c, a)" "c \<in> set comments"
          "commentUser c = Some a" "a \<noteq> []" "a \<in> orgMembers this"
    | (rc) c a where "q = (commentCreatedAt c, a)" "c \<in> set reviewComments"
          "commentUser c = Some a" "a \<noteq> []" "a \<in> orgMembers this"
    | (r) r t a where "q = (t, a)" "r \<in> set reviews" "reviewUser r = Some a"
          "submittedAt r = Some t" "a \<noteq> []" "a \<in> orgMembers this"
    | (m) d t a where "q = (t, a)" "prDetails = Some d" "mergedAt d = Some t"
          "mergedBy d = Some a" "a \<noteq> []" "a \<in> orgMembers this"
      unfolding L isOrgMember_def by blast
    then show "q \<in> ?R"
    proof cases
      case c
      then have "a \<in> eventAuthors comments reviewComments reviews prDetails"
        by (auto simp: eventAuthors_def)
      with c ok show ?thesis by (auto simp: qualifyingEvents_def eligibleResponder_def)
    next
      case rc
      then have "a \<in> eventAuthors comments reviewComments reviews prDetails"
        by (auto simp: eventAuthors_def)
      with rc ok show ?thesis by (auto simp: qualifyingEvents_def eligibleResponder_def)
    next
      case r
      then have "a \<in> eventAuthors comments reviewComments reviews prDetails"
        by (auto simp: eventAuthors_def)
      with r ok show ?thesis by (auto simp: qualifyingEvents_def eligibleResponder_def)
    next
      case m
      then have "a \<in> eventAuthors comments reviewComments reviews prDetails"
        by (auto simp: eventAuthors_def)
      with m ok show ?thesis by (auto simp: qualifyingEvents_def eligibleResponder_def)
    qed
  qed
  have sup: "?R \<subseteq> ?L"
    unfolding L isOrgMember_def qualifyingEvents_def by auto
  from sub sup show ?thesis by (rule subset_antisym)
qed

text \<open>When moreover every author outside the exclusion set is an organisation member,
  organisation members author all the qualifying events.\<close>

lemma qualifyingEvents_members:
  assumes "\<forall>a \<in> eventAuthors comments reviewComments reviews prDetails.
             a \<notin> excludedUsers this \<longrightarrow> a \<noteq> [] \<and> a \<in> orgMembers this"
  shows "{q \<in> qualifyingEvents this comments reviewComments reviews prDetails.
            snd q \<noteq> [] \<and> snd q \<in> orgMembers this}
         = qualifyingEvents this comments reviewComments reviews prDetails"
proof -
  have "snd q \<in> eventAuthors comments reviewComments reviews prDetails
        \<and> snd q \<notin> excludedUsers this"
    if "q \<in> qualifyingEvents this comments reviewComments reviews prDetails" for q
    using that by (auto simp: qualifyingEvents_def eventAuthors_def eligibleResponder_def)
  with assms show ?thesis by blast
qed

lemma earliestResponse_min:
  "earliestResponse first rest \<in> set (first # rest)
   \<and> (\<forall>e \<in> set (first # rest). evDate (earliestResponse first rest) \<le> evDate e)"
proof (induction rest arbitrary: first)
  case Nil
  then show ?case by (simp add: earliestResponse_def)
next
  case (Cons curr rest)
  let ?m = "if evDate curr < evDate first then curr else first"
  have step: "earliestResponse first (curr # rest) = earliestResponse ?m rest"
    by (simp add: earliestResponse_def)
  from Cons.IH [of ?m] show ?case
    unfolding step by (auto split: if_splits)
qed


lemma findFirstOrgResponse_pr:
  assumes "issuesListComments api (organization this) repo n = Inr comments"
    and "pullsListReviewComments api (organization this) repo n = Inr reviewComments"
    and "pullsListReviews api (organization this) repo n = Inr reviews"
  shows "findFirstOrgResponse api this repo n Pr prDetails =
     (case commentResponses this comments @ commentResponses this reviewComments
           @ reviewResponses this reviews @ mergeResponses this prDetails of
        [] \<Rightarrow> None
      | first # rest \<Rightarrow>
          Some \<lparr>respondedAt = evDate (earliestResponse first rest),
                respondedBy = evAuthor (earliestResponse first rest)\<rparr>)"
  using assms by (simp add: findFirstOrgResponse_def Let_def)

lemma findFirstOrgResponse_pr_failed:
  assumes "issuesListComments api (organization this) repo n = Inl e
           \<or> pullsListReviewComments api (organization this) repo n = Inl e
           \<or> pullsListReviews api (organization this) repo n = Inl e"
  shows "findFirstOrgResponse api this repo n Pr prDetails = None"
  using assms by (auto simp: findFirstOrgResponse_def split: sum.splits)

text \<open>
  Claim C2 says that for every pull request \<open>findFirstOrgResponse\<close> returns the earliest
  qualifying event and returns \<open>null\<close> exactly when there is none. In the sample world with
  a review service that is down, pull request 4 was merged by \<open>bob\<close>, an organisation member
  outside the exclusion set, and the result is \<open>null\<close>. In the sample world with a comment
  by \<open>carol\<close>, who is outside the exclusion set and not a member of the organisation, that
  comment is a qualifying event and the result for the pull request without merge details
  is \<open>null\<close>.
\<close>

theorem findFirstOrgResponse_null_counterexample:
  "pullsListReviews sampleApiReviewsDown (organization sampleAnalytics) ''app'' 4
     = Inl (Error ''Server Error'')
   \<and> \<not> isRateLimitError (Error ''Server Error'')
   \<and> eligibleResponder sampleAnalytics ''bob''
   \<and> (\<forall>reviews. (1762768800000, ''bob'') \<in> qualifyingEvents sampleAnalytics [] [] reviews
         (Some \<lparr>mergedAt = Some 1762768800000, mergedBy = Some ''bob''\<rparr>))
   \<and> findFirstOrgResponse sampleApiReviewsDown sampleAnalytics ''app'' 4 Pr
        (Some \<lparr>mergedAt = Some 1762768800000, mergedBy = Some ''bob''\<rparr>) = None
   \<and> issuesListComments sampleApiCommunity (organization sampleAnalytics) ''app'' 4
       = Inr [\<lparr>commentUser = Some ''carol'', commentCreatedAt = 1762164000000\<rparr>]
   \<and> pullsListReviewComments sampleApiCommunity (organization sampleAnalytics) ''app'' 4 = Inr []
   \<and> pullsListReviews sampleApiCommunity (organization sampleAnalytics) ''app'' 4 = Inr []
   \<and> eligibleResponder sampleAnalytics ''carol''
   \<and> (1762164000000, ''carol'') \<in> qualifyingEvents sampleAnalytics
         [\<lparr>commentUser = Some ''carol'', commentCreatedAt = 1762164000000\<rparr>] [] [] None
   \<and> findFirstOrgResponse sampleApiCommunity sampleAnalytics ''app'' 4 Pr None = None"
proof -
  have 1: "pullsListReviews sampleApiReviewsDown (organization sampleAnalytics) ''app'' 4
     = Inl (Error ''Server Error'')"
    by (simp add: sampleApiReviewsDown_def)
  have 2: "\<not> isRateLimitError (Error ''Server Error'')"
    by (simp add: isRateLimitError_def)
  have 3: "eligibleResponder sampleAnalytics ''bob''"
    by (simp add: eligibleResponder_def sampleAnalytics_def)
  have 4: "\<forall>reviews. (1762768800000, ''bob'') \<in> qualifyingEvents sampleAnalytics [] [] reviews
         (Some \<lparr>mergedAt = Some 1762768800000, mergedBy = Some ''bob''\<rparr>)"
    using 3 by (simp add: qualifyingEvents_def)
  have 5: "findFirstOrgResponse sampleApiReviewsDown sampleAnalytics ''app'' 4 Pr
        (Some \<lparr>mergedAt = Some 1762768800000, mergedBy = Some ''bob''\<rparr>) = None"
    by (simp add: findFirstOrgResponse_def sampleApiReviewsDown_def sampleApi_def)
  have 6: "issuesListComments sampleApiCommunity (organization sampleAnalytics) ''app'' 4
       = Inr [\<lparr>commentUser = Some ''carol'', commentCreatedAt = 1762164000000\<rparr>]"
    "pullsListReviewComments sampleApiCommunity (organization sampleAnalytics) ''app'' 4 = Inr []"
    "pullsListReviews sampleApiCommunity (organization sampleAnalytics) ''app'' 4 = Inr []"
    by (simp_all add: sampleApiCommunity_def sampleApi_def)
  have 7: "eligibleResponder sampleAnalytics ''carol''"
    by (simp add: eligibleResponder_def sampleAnalytics_def)
  have 8: "(1762164000000, ''carol'') \<in> qualifyingEvents sampleAnalytics
         [\<lparr>commentUser = Some ''carol'', commentCreatedAt = 1762164000000\<rparr>] [] [] None"
    using 7 by (simp add: qualifyingEvents_def)
  have 9: "findFirstOrgResponse sampleApiCommunity sampleAnalytics ''app'' 4 Pr None = None"
    unfolding findFirstOrgResponse_def 6
    by (simp add: sampleAnalytics_def isOrgMember_def mergeResponses_def)
  show ?thesis
    by (intro conjI; (rule 1 2 3 4 5 6 7 8 9))
qed

text \<open>
  Claim C2 as amended. For every pull request:
  \<^item> when one of the three event requests fails, \<open>findFirstOrgResponse\<close> returns \<open>null\<close>;
  \<^item> when the three requests succeed and no organisation member among the authors of the
    events is in the exclusion set, it returns \<open>null\<close> exactly when no organisation member
    (with a login that is not empty) authored a qualifying event in any of the four
    sources, and otherwise it returns such an event whose timestamp is minimal among them;
    these are all the qualifying events when every author outside the exclusion set is an
    organisation member; and a pull request without comments and reviews that was merged
    by an organisation member has its response at the merge instant, by an eligible
    responder.
\<close>

theorem findFirstOrgResponse_earliest_member_event:
  "(\<forall>e. issuesListComments api (organization this) repo n = Inl e
        \<or> pullsListReviewComments api (organization this) repo n = Inl e
        \<or> pullsListReviews api (organization this) repo n = Inl e
        \<longrightarrow> findFirstOrgResponse api this repo n Pr prDetails = None)
   \<and> (issuesListComments api (organization this) repo n = Inr comments
      \<and> pullsListReviewComments api (organization this) repo n = Inr reviewComments
      \<and> pullsListReviews api (organization this) repo n = Inr reviews
      \<and> (\<forall>a \<in> eventAuthors comments reviewComments reviews prDetails.
            a \<in> orgMembers this \<longrightarrow> a \<notin> excludedUsers this)
      \<longrightarrow>
        (findFirstOrgResponse api this repo n Pr prDetails = None
            \<longleftrightarrow> {q \<in> qualifyingEvents this comments reviewComments reviews prDetails.
                   snd q \<noteq> [] \<and> snd q \<in> orgMembers this} = {})
      \<and> (\<forall>r. findFirstOrgResponse api this repo n Pr prDetails = Some r \<longrightarrow>
              (respondedAt r, respondedBy r)
                 \<in> qualifyingEvents this comments reviewComments reviews prDetails
            \<and> respondedBy r \<noteq> [] \<and> respondedBy r \<in> orgMembers this
            \<and> (\<forall>q \<in> qualifyingEvents this comments reviewComments reviews prDetails.
                  snd q \<noteq> [] \<and> snd q \<in> orgMembers this \<longrightarrow> respondedAt r \<le> fst q))
      \<and> ((\<forall>a \<in> eventAuthors comments reviewComments reviews prDetails.
              a \<notin> excludedUsers this \<longrightarrow> a \<noteq> [] \<and> a \<in> orgMembers this)
          \<longrightarrow> {q \<in> qualifyingEvents this comments reviewComments reviews prDetails.
                  snd q \<noteq> [] \<and> snd q \<in> orgMembers this}
               = qualifyingEvents this comments reviewComments reviews prDetails)
      \<and> (\<forall>d t a. comments = [] \<and> reviewComments = [] \<and> reviews = []
              \<and> prDetails = Some d \<and> mergedAt d = Some t \<and> mergedBy d = Some a
              \<and> a \<noteq> [] \<and> a \<in> orgMembers this \<longrightarrow>
              eligibleResponder this a
              \<and> findFirstOrgResponse api this repo n Pr prDetails
                  = Some \<lparr>respondedAt = t, respondedBy = a\<rparr>))"
proof (intro conjI allI impI)
  fix e
  assume "issuesListComments api (organization this) repo n = Inl e
        \<or> pullsListReviewComments api (organization this) repo n = Inl e
        \<or> pullsListReviews api (organization this) repo n = Inl e"
  then show "findFirstOrgResponse api this repo n Pr prDetails = None"
    by (rule findFirstOrgResponse_pr_failed)
next
  assume h: "issuesListComments api (organization this) repo n = Inr comments
      \<and> pullsListReviewComments api (organization this) repo n = Inr reviewComments
      \<and> pullsListReviews api (organization this) repo n = Inr reviews
      \<and> (\<forall>a \<in> eventAuthors comments reviewComments reviews prDetails.
            a \<in> orgMembers this \<longrightarrow> a \<notin> excludedUsers this)"
  then have req: "issuesListComments api (organization this) repo n = Inr comments"
      "pullsListReviewComments api (organization this) repo n = Inr reviewComments"
      "pullsListReviews api (organization this) repo n = Inr reviews"
    and ex: "\<forall>a \<in> eventAuthors comments reviewComments reviews prDetails.
            a \<in> orgMembers this \<longrightarrow> a \<notin> excludedUsers this"
    by simp_all
  define all where "all = commentResponses this comments @ commentResponses this reviewComments
                          @ reviewResponses this reviews @ mergeResponses this prDetails"
  define Q where "Q = {q \<in> qualifyingEvents this comments reviewComments reviews prDetails.
                         snd q \<noteq> [] \<and> snd q \<in> orgMembers this}"
  have Q: "eventPair ` set all = Q"
    unfolding all_def Q_def by (rule allResponses_events [OF ex])
  have res: "findFirstOrgResponse api this repo n Pr prDetails =
     (case all of [] \<Rightarrow> None
      | first # rest \<Rightarrow>
          Some \<lparr>respondedAt = evDate (earliestResponse first rest),
                respondedBy = evAuthor (earliestResponse first rest)\<rparr>)"
    unfolding all_def by (rule findFirstOrgResponse_pr [OF req])
  have c1: "findFirstOrgResponse api this repo n Pr prDetails = None \<longleftrightarrow> Q = {}"
  proof (cases all)
    case Nil
    then show ?thesis using Q res by simp
  next
    case (Cons first rest)
    then have "eventPair first \<in> Q" using Q by auto
    then show ?thesis using Cons res by auto
  qed
  have c2: "(respondedAt r, respondedBy r) \<in> Q \<and> (\<forall>q \<in> Q. respondedAt r \<le> fst q)"
    if r: "findFirstOrgResponse api this repo n Pr prDetails = Some r" for r
  proof -
    from r obtain first rest where all: "all = first # rest"
      using res by (cases all) simp_all
    let ?e = "earliestResponse first rest"
    have re: "r = \<lparr>respondedAt = evDate ?e, respondedBy = evAuthor ?e\<rparr>"
      using r res all by simp
    from earliestResponse_min [of first rest]
    have mem: "?e \<in> set all" and least: "\<forall>e \<in> set all. evDate ?e \<le> evDate e"
      by (simp_all add: all)
    from mem have "eventPair ?e \<in> Q" using Q by blast
    then have a: "(respondedAt r, respondedBy r) \<in> Q" by (simp add: re eventPair_def)
    have b: "\<forall>q \<in> Q. respondedAt r \<le> fst q"
    proof
      fix q assume "q \<in> Q"
      then obtain e where "e \<in> set all" "q = eventPair e" using Q by blast
      then show "respondedAt r \<le> fst q" using least by (simp add: re eventPair_def)
    qed
    from a b show ?thesis ..
  qed
  show "findFirstOrgResponse api this repo n Pr prDetails = None
        \<longleftrightarrow> {q \<in> qualifyingEvents this comments reviewComments reviews prDetails.
               snd q \<noteq> [] \<and> snd q \<in> orgMembers this} = {}"
    using c1 unfolding Q_def .
  {
    fix r assume r: "findFirstOrgResponse api this repo n Pr prDetails = Some r"
    from c2 [OF r] have m: "(respondedAt r, respondedBy r) \<in> Q"
      and l: "\<forall>q \<in> Q. respondedAt r \<le> fst q" by simp_all
    from m show "(respondedAt r, respondedBy r)
                 \<in> qualifyingEvents this comments reviewComments reviews prDetails"
      by (simp add: Q_def)
    from m show "respondedBy r \<noteq> []" by (simp add: Q_def)
    from m show "respondedBy r \<in> orgMembers this" by (simp add: Q_def)
    show "\<forall>q \<in> qualifyingEvents this comments reviewComments reviews prDetails.
                  snd q \<noteq> [] \<and> snd q \<in> orgMembers this \<longrightarrow> respondedAt r \<le> fst q"
    proof (intro ballI impI)
      fix q
      assume "q \<in> qualifyingEvents this comments reviewComments reviews prDetails"
        "snd q \<noteq> [] \<and> snd q \<in> orgMembers this"
      then have "q \<in> Q" by (simp add: Q_def)
      with l show "respondedAt r \<le> fst q" by blast
    qed
  }
  {
    assume "\<forall>a \<in> eventAuthors comments reviewComments reviews prDetails.
              a \<notin> excludedUsers this \<longrightarrow> a \<noteq> [] \<and> a \<in> orgMembers this"
    then show "{q \<in> qualifyingEvents this comments reviewComments reviews prDetails.
                  snd q \<noteq> [] \<and> snd q \<in> orgMembers this}
               = qualifyingEvents this comments reviewComments reviews prDetails"
      by (rule qualifyingEvents_members)
  }
  {
    fix d t a
    assume m: "comments = [] \<and> reviewComments = [] \<and> reviews = []
              \<and> prDetails = Some d \<and> mergedAt d = Some t \<and> mergedBy d = Some a
              \<and> a \<noteq> [] \<and> a \<in> orgMembers this"
    then have "a \<in> eventAuthors comments reviewComments reviews prDetails"
      by (simp add: eventAuthors_def)
    with ex m show "eligibleResponder this a" by (simp add: eligibleResponder_def)
    from m show "findFirstOrgResponse api this repo n Pr prDetails
                  = Some \<lparr>respondedAt = t, respondedBy = a\<rparr>"
      unfolding res all_def
      by (simp add: mergeResponses_def earliestResponse_def isOrgMember_def)
  }
qed

text \<open>An instance: pull request 4 of the sample world, merged by \<open>bob\<close>; the same pull
  request without merge details; and the same pull request when the review service is
  down.\<close>

theorem findFirstOrgResponse_earliest_member_event_witness:
  "issuesListComments sampleApi (organization sampleAnalytics) ''app'' 4 = Inr []
   \<and> pullsListReviewComments sampleApi (organization sampleAnalytics) ''app'' 4 = Inr []
   \<and> pullsListReviews sampleApi (organization sampleAnalytics) ''app'' 4 = Inr []
   \<and> eventAuthors [] [] []
        (Some \<lparr>mergedAt = Some 1762768800000, mergedBy = Some ''bob''\<rparr>) = {''bob''}
   \<and> ''bob'' \<in> orgMembers sampleAnalytics \<and> ''bob'' \<notin> excludedUsers sampleAnalytics
   \<and> eligibleResponder sampleAnalytics ''bob''
   \<and> findFirstOrgResponse sampleApi sampleAnalytics ''app'' 4 Pr
        (Some \<lparr>mergedAt = Some 1762768800000, mergedBy = Some ''bob''\<rparr>)
       = Some \<lparr>respondedAt = 1762768800000, respondedBy = ''bob''\<rparr>
   \<and> qualifyingEvents sampleAnalytics [] [] []
        (Some \<lparr>mergedAt = Some 1762768800000, mergedBy = Some ''bob''\<rparr>)
       = {(1762768800000, ''bob'')}
   \<and> eventAuthors [] [] [] None = {}
   \<and> findFirstOrgResponse sampleApi sampleAnalytics ''app'' 4 Pr None = None
   \<and> pullsListReviews sampleApiReviewsDown (organization sampleAnalytics) ''app'' 4
       = Inl (Error ''Server Error'')
   \<and> findFirstOrgResponse sampleApiReviewsDown sampleAnalytics ''app'' 4 Pr None = None"
proof -
  let ?d = "\<lparr>mergedAt = Some 1762768800000, mergedBy = Some ''bob''\<rparr>"
  have f: "issuesListComments sampleApi (organization sampleAnalytics) ''app'' 4 = Inr []"
    "pullsListReviewComments sampleApi (organization sampleAnalytics) ''app'' 4 = Inr []"
    "pullsListReviews sampleApi (organization sampleAnalytics) ''app'' 4 = Inr []"
    by (simp_all add: sampleApi_def)
  have au: "eventAuthors [] [] [] (Some ?d) = {''bob''}" "eventAuthors [] [] [] None = {}"
    by (auto simp: eventAuthors_def)
  have b: "''bob'' \<in> orgMembers sampleAnalytics" "''bob'' \<notin> excludedUsers sampleAnalytics"
    by (simp_all add: sampleAnalytics_def)
  have h1: "\<forall>a \<in> eventAuthors [] [] [] (Some ?d).
              a \<in> orgMembers sampleAnalytics \<longrightarrow> a \<notin> excludedUsers sampleAnalytics"
    unfolding au using b by simp
  have h2: "\<forall>a \<in> eventAuthors [] [] [] None.
              a \<in> orgMembers sampleAnalytics \<longrightarrow> a \<notin> excludedUsers sampleAnalytics"
    unfolding au by simp
  have dn: "pullsListReviews sampleApiReviewsDown (organization sampleAnalytics) ''app'' 4
       = Inl (Error ''Server Error'')"
    by (simp add: sampleApiReviewsDown_def)
  note merged = findFirstOrgResponse_earliest_member_event
    [of sampleApi sampleAnalytics "''app''" 4 "Some ?d" "[]" "[]" "[]", THEN conjunct2,
     rule_format, OF conjI [OF f(1) conjI [OF f(2) conjI [OF f(3) h1]]]]
  note unmerged = findFirstOrgResponse_earliest_member_event
    [of sampleApi sampleAnalytics "''app''" 4 None "[]" "[]" "[]", THEN conjunct2,
     rule_format, OF conjI [OF f(1) conjI [OF f(2) conjI [OF f(3) h2]]]]
  note down = findFirstOrgResponse_earliest_member_event
    [of sampleApiReviewsDown sampleAnalytics "''app''" 4 None, THEN conjunct1, rule_format,
     of "Error ''Server Error''", OF disjI2 [OF disjI2 [OF dn]]]
  from merged [THEN conjunct2, THEN conjunct2, THEN conjunct2, rule_format, of ?d 1762768800000 "''bob''"] b
  have r: "eligibleResponder sampleAnalytics ''bob''
      \<and> findFirstOrgResponse sampleApi sampleAnalytics ''app'' 4 Pr (Some ?d)
       = Some \<lparr>respondedAt = 1762768800000, respondedBy = ''bob''\<rparr>"
    by simp
  have q: "qualifyingEvents sampleAnalytics [] [] [] (Some ?d) = {(1762768800000, ''bob'')}"
    using r by (auto simp: qualifyingEvents_def)
  have "qualifyingEvents sampleAnalytics [] [] [] None = {}"
    by (simp add: qualifyingEvents_def)
  with unmerged [THEN conjunct1]
  have u: "findFirstOrgResponse sampleApi sampleAnalytics ''app'' 4 Pr None = None"
    by simp
  note r1 = r [THEN conjunct1] and r2 = r [THEN conjunct2]
  show ?thesis
    by (intro conjI; (rule f au b r1 r2 q u dn down))
qed

section \<open>Membership checks and rate-limit errors\<close>

text \<open>
  The response locator reads only the organisation members: the exclusion set of the
  analytics object has no influence on the first response.
\<close>

lemma responses_ignore_excludedUsers:
  "commentResponses (this\<lparr>excludedUsers := X\<rparr>) cs = commentResponses this cs"
  "reviewResponses (this\<lparr>excludedUsers := X\<rparr>) rs = reviewResponses this rs"
  "mergeResponses (this\<lparr>excludedUsers := X\<rparr>) prDetails = mergeResponses this prDetails"
  "firstOrgComment (this\<lparr>excludedUsers := X\<rparr>) cs = firstOrgComment this cs"
proof -
  show "commentResponses (this\<lparr>excludedUsers := X\<rparr>) cs = commentResponses this cs"
    by (induction cs) (simp_all add: isOrgMember_def split: option.splits)
  show "reviewResponses (this\<lparr>excludedUsers := X\<rparr>) rs = reviewResponses this rs"
    by (induction rs) (simp_all add: isOrgMember_def split: option.splits)
  show "mergeResponses (this\<lparr>excludedUsers := X\<rparr>) prDetails = mergeResponses this prDetails"
    by (simp add: mergeResponses_def isOrgMember_def split: option.splits)
  show "firstOrgComment (this\<lparr>excludedUsers := X\<rparr>) cs = firstOrgComment this cs"
    by (induction cs) (simp_all add: isOrgMember_def split: option.splits)
qed

lemma findFirstOrgResponse_ignores_excludedUsers:
  "findFirstOrgResponse api (this\<lparr>excludedUsers := X\<rparr>) repo n ty prDetails
     = findFirstOrgResponse api this repo n ty prDetails"
  by (simp add: findFirstOrgResponse_def responses_ignore_excludedUsers Let_def
        split: sum.splits)

text \<open>
  Claim C6 says that the exclusion set is applied to the reporter check and to the
  responder check alike, so that no user is an excluded reporter and a valid responder at
  once. In the sample world \<open>alice\<close> is a member of the excluded team \<open>core\<close> and of the
  organisation: the run drops issue 2, which \<open>alice\<close> authored, and the comment of \<open>alice\<close> is
  the first response of issue 1.
\<close>

theorem excluded_user_counts_as_responder:
  "main sampleApi sampleConfig 0 0 0
       = Finished sampleData (calculateOverallMetrics sampleData)
           (calculateWeeklySummary sampleData)
   \<and> isExcludedUser sampleAnalytics ''alice''
   \<and> itemUser (sampleIssues ! 1) = Some ''alice''
   \<and> issuesLoop sampleApi sampleAnalytics 0 ''app'' [sampleIssues ! 1] = []
   \<and> findFirstOrgResponse sampleApi sampleAnalytics ''app'' 1 Issue None
       = Some \<lparr>respondedAt = 1762182000000, respondedBy = ''alice''\<rparr>
   \<and> IssueData.respondedBy (sampleData ! 0) = Some ''alice''"
proof -
  have a: "isExcludedUser sampleAnalytics ''alice''"
    by (simp add: isExcludedUser_def sampleAnalytics_def)
  have b: "itemUser (sampleIssues ! 1) = Some ''alice''"
    by (simp add: sampleIssues_def)
  have c: "issuesLoop sampleApi sampleAnalytics 0 ''app'' [sampleIssues ! 1] = []"
    using a by (simp add: sampleIssues_def authorOf_def)
  have d: "IssueData.respondedBy (sampleData ! 0) = Some ''alice''"
    by (simp add: sampleData_def)
  have e: "findFirstOrgResponse sampleApi sampleAnalytics ''app'' 1 Issue None
       = Some \<lparr>respondedAt = 1762182000000, respondedBy = ''alice''\<rparr>"
    by (rule sample_first_responses)
  have f: "main sampleApi sampleConfig 0 0 0
       = Finished sampleData (calculateOverallMetrics sampleData)
           (calculateWeeklySummary sampleData)"
    by (rule sample_main)
  from f a b c e d show ?thesis by blast
qed

text \<open>
  A rate-limit error of a search or of the detail request of a pull request reaches the
  caller with a message that still includes \<^verbatim>\<open>rate limit\<close>; an error of a comment request
  ends in the \<^verbatim>\<open>catch\<close> of \<open>findFirstOrgResponse\<close>, whatever its message.
\<close>

lemma stringIncludes_append:
  "stringIncludes s sub \<Longrightarrow> stringIncludes (p @ s) sub"
proof (induction p)
  case Nil
  then show ?case by simp
next
  case (Cons c p)
  then show ?case by simp
qed

lemma isRateLimitError_wrapped:
  "isRateLimitError e \<Longrightarrow> isRateLimitError (Error (prefix @ message e))"
  by (simp add: isRateLimitError_def stringIncludes_append)

lemma fetchIssues_rate_limit:
  assumes "searchIssuesAndPullRequests api (organization this) repo Issue startDate endDate = Inl e"
    and "isRateLimitError e"
  shows "\<exists>e'. fetchIssues api this tz repo startDate endDate = Inl e' \<and> isRateLimitError e'"
  using assms isRateLimitError_wrapped [of e "''Failed to fetch issues for '' @ repo @ '': ''"]
  by (simp add: fetchIssues_def)

lemma processPullRequest_rate_limit:
  assumes "\<not> isExcludedUser this (authorOf pr)" and "itemState pr = ''closed''"
    and "pullsGet api (organization this) repo (itemNumber pr) = Inl e"
    and "isRateLimitError e"
  shows "processPullRequest api this tz repo pr = Inl e"
  using assms by (simp add: processPullRequest_def)

lemma findFirstOrgResponse_swallows:
  assumes "issuesListComments api (organization this) repo n = Inl e"
  shows "findFirstOrgResponse api this repo n ty prDetails = None"
  using assms by (cases ty) (simp_all add: findFirstOrgResponse_def)

text \<open>
  Claim C9 says that a rate-limit failure of any request, also of a per-item comment or
  review lookup, aborts the run with a rate-limit error. In the sample world the comment
  request of issue 3 is rejected with a rate-limit message: the run finishes with exit
  code 0 and reports issue 3 as an item without a response.
\<close>

theorem rate_limit_in_comment_lookup_swallowed:
  "issuesListComments sampleApi ''acme'' ''app'' 3
     = Inl (Error ''API rate limit exceeded for user ID 1'')
   \<and> isRateLimitError (Error ''API rate limit exceeded for user ID 1'')
   \<and> main sampleApi sampleConfig 0 0 0
       = Finished sampleData (calculateOverallMetrics sampleData)
           (calculateWeeklySummary sampleData)
   \<and> exitCode (main sampleApi sampleConfig 0 0 0) = 0
   \<and> number (sampleData ! 1) = 3
   \<and> firstResponseAt (sampleData ! 1) = None"
proof -
  have a: "issuesListComments sampleApi ''acme'' ''app'' 3
     = Inl (Error ''API rate limit exceeded for user ID 1'')"
    by (simp add: sampleApi_def)
  have b: "isRateLimitError (Error ''API rate limit exceeded for user ID 1'')"
    by (simp add: isRateLimitError_def)
  have c: "number (sampleData ! 1) = 3" "firstResponseAt (sampleData ! 1) = None"
    by (simp_all add: sampleData_def)
  from a b c show ?thesis by (simp add: sample_main)
qed

end
